theory Spec2Isabelle
  imports Complex_Main "HOL-Library.Sublist"
begin

chapter \<open>The program\<close>

section \<open>Python values\<close>

subsection \<open>Floats\<close>

text \<open>
  The receipt pipeline is written in Python. A Python float is an IEEE 754 binary64
  number: \<open>NaN\<close>, one of the two infinities, or a finite number. \<open>Finite m e\<close> is the
  number \<open>m * 2 ^ e\<close>; for a binary64 number the magnitude of \<open>m\<close> is below \<open>2 ^ 53\<close> and
  \<open>e\<close> lies between \<open>-1074\<close> and \<open>971\<close>. The sign of a zero is not represented.
\<close>

datatype pyfloat = Finite int int | PosInf | NegInf | NaN

definition float_zero :: pyfloat where "float_zero = Finite 0 0"

text \<open>The mantissa of \<open>m * 2 ^ e\<close> at the smaller exponent \<open>e0\<close>.\<close>

definition scaled :: "int \<Rightarrow> int \<Rightarrow> int \<Rightarrow> int" where
  "scaled m e e0 = m * 2 ^ nat (e - e0)"

text \<open>The comparisons \<open><\<close> and \<open><=\<close>: every comparison with \<open>NaN\<close> is false.\<close>

fun flt :: "pyfloat \<Rightarrow> pyfloat \<Rightarrow> bool" where
  "flt NaN y = False"
| "flt x NaN = False"
| "flt x NegInf = False"
| "flt NegInf y = True"
| "flt PosInf y = False"
| "flt x PosInf = True"
| "flt (Finite m1 e1) (Finite m2 e2) =
     (scaled m1 e1 (min e1 e2) < scaled m2 e2 (min e1 e2))"

fun fle :: "pyfloat \<Rightarrow> pyfloat \<Rightarrow> bool" where
  "fle NaN y = False"
| "fle x NaN = False"
| "fle NegInf y = True"
| "fle x NegInf = False"
| "fle x PosInf = True"
| "fle PosInf y = False"
| "fle (Finite m1 e1) (Finite m2 e2) =
     (scaled m1 e1 (min e1 e2) \<le> scaled m2 e2 (min e1 e2))"

fun fabs :: "pyfloat \<Rightarrow> pyfloat" where
  "fabs (Finite m e) = Finite \<bar>m\<bar> e"
| "fabs PosInf = PosInf"
| "fabs NegInf = PosInf"
| "fabs NaN = NaN"

fun fneg :: "pyfloat \<Rightarrow> pyfloat" where
  "fneg (Finite m e) = Finite (- m) e"
| "fneg PosInf = NegInf"
| "fneg NegInf = PosInf"
| "fneg NaN = NaN"

text \<open>
  Rounding to binary64, to nearest with ties to even: \<open>bit_length n\<close> is the number of
  binary digits of a positive \<open>n\<close>, \<open>round_half_even n k\<close> is \<open>n / 2 ^ k\<close> rounded to an integer,
  and \<open>round_binary64 m e\<close> is the float nearest to \<open>m * 2 ^ e\<close> for \<open>e\<close> not below
  \<open>-1074\<close>: a mantissa of more than 53 bits loses its low bits, and a result of
  magnitude \<open>2 ^ 1024\<close> or more is an infinity.
\<close>

function bit_length :: "int \<Rightarrow> nat" where
  "bit_length n = (if n \<le> 0 then 0 else Suc (bit_length (n div 2)))"
  by pat_completeness auto

termination bit_length
  by (relation "measure nat") auto

declare bit_length.simps [simp del]

definition round_half_even :: "int \<Rightarrow> nat \<Rightarrow> int" where
  "round_half_even n k =
     (let q = n div 2 ^ k; r = n mod 2 ^ k
      in if 2 * r < 2 ^ k then q
         else if 2 ^ k < 2 * r then q + 1
         else if even q then q else q + 1)"

definition round_binary64 :: "int \<Rightarrow> int \<Rightarrow> pyfloat" where
  "round_binary64 m e =
     (let k = bit_length \<bar>m\<bar> - 53;
          q = round_half_even \<bar>m\<bar> k;
          e' = e + int k
      in if 1024 < int (bit_length q) + e'
         then (if m < 0 then NegInf else PosInf)
         else Finite (if m < 0 then - q else q) e')"

text \<open>The operators \<open>+\<close> and \<open>-\<close> on floats: the exact result, rounded.\<close>

fun fadd :: "pyfloat \<Rightarrow> pyfloat \<Rightarrow> pyfloat" where
  "fadd NaN y = NaN"
| "fadd x NaN = NaN"
| "fadd PosInf NegInf = NaN"
| "fadd NegInf PosInf = NaN"
| "fadd PosInf y = PosInf"
| "fadd NegInf y = NegInf"
| "fadd x PosInf = PosInf"
| "fadd x NegInf = NegInf"
| "fadd (Finite m1 e1) (Finite m2 e2) =
     round_binary64 (scaled m1 e1 (min e1 e2) + scaled m2 e2 (min e1 e2)) (min e1 e2)"

definition fsub :: "pyfloat \<Rightarrow> pyfloat \<Rightarrow> pyfloat" where
  "fsub x y = fadd x (fneg y)"

text \<open>The real number a finite float denotes, for statements that compare with decimals.\<close>

definition float_value :: "int \<Rightarrow> int \<Rightarrow> real" where
  "float_value m e =
     (if 0 \<le> e then real_of_int m * 2 ^ nat e else real_of_int m / 2 ^ nat (- e))"

subsection \<open>Values of type Any\<close>

text \<open>
  Strings are lists of characters (code points below 256) and Python's unbounded integers
  are \<open>int\<close>. Values of type \<open>Any\<close> (decoded JSON, the dictionaries exchanged with the
  API client) are values of \<open>pyval\<close>; a \<open>dict\<close> is an association list read with
  \<open>map_of\<close>.
\<close>

datatype pyval =
    PNone
  | PBool bool
  | PInt int
  | PFloat pyfloat
  | PStr string
  | PList "pyval list"
  | PDict "(string \<times> pyval) list"

subsection \<open>Exceptions\<close>

text \<open>
  \<open>Exn cls msg\<close> is an exception of class \<open>cls\<close>, a class that derives from
  \<open>Exception\<close>, whose \<open>str()\<close> is \<open>msg\<close>. \<open>BaseExn cls msg\<close> is an exception whose
  class derives from \<open>BaseException\<close> but not from \<open>Exception\<close>
  (\<open>asyncio.CancelledError\<close>, \<open>KeyboardInterrupt\<close>, \<open>SystemExit\<close>); a clause
  \<open>except Exception\<close> does not catch it. \<open>Exception v\<close> is the object built by
  \<open>Exception(v)\<close>, whose \<open>str()\<close> is \<open>str(v)\<close>. \<open>ValidationError model errors\<close> is
  pydantic's \<open>ValidationError\<close> for the model \<open>model\<close>; it derives from \<open>ValueError\<close>,
  and \<open>errors\<close> lists each rejected field with the message of the error that its
  validator raised, which pydantic reports inside its own text.
\<close>

datatype exn =
    Exn string string
  | BaseExn string string
  | Exception pyval
  | ValidationError string "(string \<times> string) list"

text \<open>\<open>isinstance(e, Exception)\<close>: what \<open>except Exception\<close> catches.\<close>

fun is_Exception :: "exn \<Rightarrow> bool" where
  "is_Exception (BaseExn cls msg) = False"
| "is_Exception e = True"

text \<open>\<open>isinstance(e, json.JSONDecodeError)\<close>\<close>

fun is_JSONDecodeError :: "exn \<Rightarrow> bool" where
  "is_JSONDecodeError (Exn cls msg) = (cls = ''JSONDecodeError'')"
| "is_JSONDecodeError e = False"

definition try_bind :: "exn + 'a \<Rightarrow> ('a \<Rightarrow> exn + 'b) \<Rightarrow> exn + 'b" where
  "try_bind m f = (case m of Inl e \<Rightarrow> Inl e | Inr x \<Rightarrow> f x)"

text \<open>\<open>d[k]\<close>: a missing key raises KeyError, a value that is not a dict raises TypeError.\<close>

fun py_getitem :: "pyval \<Rightarrow> string \<Rightarrow> exn + pyval" where
  "py_getitem (PDict d) k =
     (case map_of d k of Some v \<Rightarrow> Inr v | None \<Rightarrow> Inl (Exn ''KeyError'' k))"
| "py_getitem v k = Inl (Exn ''TypeError'' ''not subscriptable with a string key'')"

text \<open>\<open>d.get(k, default)\<close>: only a dict has the method.\<close>

fun py_get :: "pyval \<Rightarrow> string \<Rightarrow> pyval \<Rightarrow> exn + pyval" where
  "py_get (PDict d) k dflt = Inr (case map_of d k of Some v \<Rightarrow> v | None \<Rightarrow> dflt)"
| "py_get v k dflt = Inl (Exn ''AttributeError'' ''object has no attribute get'')"

text \<open>Truth value of an object, as \<open>not x\<close> and \<open>if x\<close> compute it.\<close>

fun py_truthy :: "pyval \<Rightarrow> bool" where
  "py_truthy PNone = False"
| "py_truthy (PBool b) = b"
| "py_truthy (PInt i) = (i \<noteq> 0)"
| "py_truthy (PFloat (Finite m e)) = (m \<noteq> 0)"
| "py_truthy (PFloat x) = True"
| "py_truthy (PStr s) = (s \<noteq> [])"
| "py_truthy (PList xs) = (xs \<noteq> [])"
| "py_truthy (PDict d) = (d \<noteq> [])"

text \<open>
  The operator \<open>+\<close> on values of type \<open>Any\<close>. An \<open>int\<close> (a \<open>bool\<close> is one) added to
  a float is converted first, which raises \<open>OverflowError\<close> when it is too large.
\<close>

definition int_to_float :: "int \<Rightarrow> exn + pyfloat" where
  "int_to_float i =
     (case round_binary64 i 0 of
        Finite m e \<Rightarrow> Inr (Finite m e)
      | _ \<Rightarrow> Inl (Exn ''OverflowError'' ''int too large to convert to float''))"

fun py_add :: "pyval \<Rightarrow> pyval \<Rightarrow> exn + pyval" where
  "py_add (PInt a) (PInt b) = Inr (PInt (a + b))"
| "py_add (PInt a) (PBool b) = Inr (PInt (a + (if b then 1 else 0)))"
| "py_add (PBool a) (PInt b) = Inr (PInt ((if a then 1 else 0) + b))"
| "py_add (PBool a) (PBool b) = Inr (PInt ((if a then 1 else 0) + (if b then 1 else 0)))"
| "py_add (PFloat a) (PFloat b) = Inr (PFloat (fadd a b))"
| "py_add (PFloat a) (PInt b) =
     try_bind (int_to_float b) (\<lambda>y. Inr (PFloat (fadd a y)))"
| "py_add (PInt a) (PFloat b) =
     try_bind (int_to_float a) (\<lambda>x. Inr (PFloat (fadd x b)))"
| "py_add (PFloat a) (PBool b) = Inr (PFloat (fadd a (Finite (if b then 1 else 0) 0)))"
| "py_add (PBool a) (PFloat b) = Inr (PFloat (fadd (Finite (if a then 1 else 0) 0) b))"
| "py_add (PStr a) (PStr b) = Inr (PStr (a @ b))"
| "py_add (PList a) (PList b) = Inr (PList (a @ b))"
| "py_add a b = Inl (Exn ''TypeError'' ''unsupported operand types for +'')"

text \<open>\<open>sep.join(xs)\<close>\<close>

fun py_join :: "string \<Rightarrow> string list \<Rightarrow> string" where
  "py_join sep [] = []"
| "py_join sep [x] = x"
| "py_join sep (x # y # ys) = x @ sep @ py_join sep (y # ys)"


section \<open>Receipt Schema Validator (json\_formatter.py)\<close>

record MerchantInfo =
  name :: "string option"
  address :: "string option"
  phone :: "string option"
  vat_number :: "string option"

record TransactionInfo =
  date :: "string option"
  time :: "string option"
  receipt_number :: "string option"
  country :: "string option"
  currency :: "string option"

record ReceiptItem =
  description :: string
  quantity :: pyfloat
  unit_price :: "pyfloat option"
  total_price :: "pyfloat option"
  tax_rate :: "pyfloat option"

text \<open>
  The keyword arguments of \<open>ReceiptItem(...)\<close> after pydantic has parsed each of them
  to the type of its field. \<open>arg_quantity = None\<close> means the key is absent: the field
  then takes its default 1.0 and its validator does not run.
\<close>

record ReceiptItem_args =
  arg_description :: string
  arg_quantity :: "pyfloat option"
  arg_unit_price :: "pyfloat option"
  arg_total_price :: "pyfloat option"
  arg_tax_rate :: "pyfloat option"

definition must_be_positive :: "pyfloat option \<Rightarrow> pyfloat option" where
  "must_be_positive v =
     (case v of
        Some x \<Rightarrow> if flt x float_zero then Some (fabs x) else v
      | None \<Rightarrow> v)"

definition ReceiptItem_init :: "ReceiptItem_args \<Rightarrow> ReceiptItem" where
  "ReceiptItem_init a =
     \<lparr> description = arg_description a,
       quantity = (case arg_quantity a of
                     None \<Rightarrow> Finite 1 0
                   | Some q \<Rightarrow> (case must_be_positive (Some q) of Some q' \<Rightarrow> q' | None \<Rightarrow> q)),
       unit_price = must_be_positive (arg_unit_price a),
       total_price = must_be_positive (arg_total_price a),
       tax_rate = arg_tax_rate a \<rparr>"

record Totals =
  subtotal :: "pyfloat option"
  tax :: "pyfloat option"
  total :: "pyfloat option"
  total_calculated :: "pyfloat option"
  total_matches :: "bool option"

text \<open>
  \<open>calculate_from_items\<close> calls the built-in \<open>sum\<close> on the prices that are not
  \<open>None\<close>. How \<open>sum\<close> rounds depends on the interpreter (one addition after the other
  before Python 3.12, a compensated summation since), so the function is the parameter
  \<open>py_sum\<close>; the \<open>int\<close> 0 that it returns for no price at all is not told apart from
  the float 0.0.
\<close>

definition calculate_from_items ::
  "(pyfloat list \<Rightarrow> pyfloat) \<Rightarrow> Totals \<Rightarrow> ReceiptItem list \<Rightarrow> pyfloat \<Rightarrow> Totals" where
  "calculate_from_items py_sum self its tolerance =
     (let self1 = self\<lparr> total_calculated := Some (py_sum (List.map_filter total_price its)) \<rparr>
      in case total self1 of
           Some t \<Rightarrow>
             self1\<lparr> total_matches :=
               Some (case total_calculated self1 of
                       Some tc \<Rightarrow> fle (fabs (fsub t tc)) tolerance
                     | None \<Rightarrow> False) \<rparr>
         | None \<Rightarrow>
             self1\<lparr> total := total_calculated self1, total_matches := Some True \<rparr>)"

record ReceiptData =
  is_receipt :: bool
  category :: "string option"
  merchant :: "MerchantInfo option"
  transaction :: "TransactionInfo option"
  items :: "ReceiptItem list"
  totals :: "Totals option"
  "notes" :: "string option"
  reason :: "string option"

text \<open>The keyword arguments of \<open>ReceiptData(...)\<close>, each parsed to the type of its field.\<close>

record ReceiptData_args =
  arg_is_receipt :: bool
  arg_category :: "string option"
  arg_merchant :: "MerchantInfo option"
  arg_transaction :: "TransactionInfo option"
  arg_items :: "ReceiptItem_args list"
  arg_totals :: "Totals option"
  arg_notes :: "string option"
  arg_reason :: "string option"

definition valid_categories :: "string list" where
  "valid_categories =
     [''Food & Drinks'',
      ''Events & Entertainment'',
      ''Travel & Transport'',
      ''Housing & Utilities'',
      ''Shopping & Essentials'',
      ''On-Chain Life'']"

definition validate_category :: "string option \<Rightarrow> exn + string option" where
  "validate_category v =
     (case v of
        None \<Rightarrow> Inr v
      | Some c \<Rightarrow>
          if c \<notin> set valid_categories
          then Inl (Exn ''ValueError''
                 (''Invalid category: '' @ c @ ''. '' @
                  ''Valid categories: '' @ py_join '', '' valid_categories))
          else Inr v)"

text \<open>
  What pydantic does with the outcome of a field validator: a \<open>ValueError\<close> or an
  \<open>AssertionError\<close> becomes an entry of the \<open>ValidationError\<close> that the constructor
  of the model raises; any other exception leaves the constructor as it is.
\<close>

definition field_validator :: "string \<Rightarrow> string \<Rightarrow> exn + 'a \<Rightarrow> exn + 'a" where
  "field_validator model field outcome =
     (case outcome of
        Inr v \<Rightarrow> Inr v
      | Inl (Exn cls msg) \<Rightarrow>
          if cls = ''ValueError'' \<or> cls = ''AssertionError''
          then Inl (ValidationError model [(field, msg)])
          else Inl (Exn cls msg)
      | Inl e \<Rightarrow> Inl e)"

text \<open>
  \<open>ReceiptData(**data)\<close>: the field validators run on the parsed arguments, those of
  \<open>ReceiptItem\<close> on every item (they never raise) and \<open>validate_category\<close> on the
  category.
\<close>

definition ReceiptData_init :: "ReceiptData_args \<Rightarrow> exn + ReceiptData" where
  "ReceiptData_init a =
     try_bind (field_validator ''ReceiptData'' ''category'' (validate_category (arg_category a)))
       (\<lambda>cat.
       Inr \<lparr> is_receipt = arg_is_receipt a,
             category = cat,
             merchant = arg_merchant a,
             transaction = arg_transaction a,
             items = map ReceiptItem_init (arg_items a),
             totals = arg_totals a,
             notes = arg_notes a,
             reason = arg_reason a \<rparr>)"

text \<open>The default of the parameter \<open>tolerance\<close>: the float nearest to 0.01.\<close>

definition default_tolerance :: pyfloat where
  "default_tolerance = Finite 5764607523034235 (-59)"

definition validate_totals ::
  "(pyfloat list \<Rightarrow> pyfloat) \<Rightarrow> ReceiptData \<Rightarrow> pyfloat \<Rightarrow> ReceiptData" where
  "validate_totals py_sum self tolerance =
     (case totals self of
        Some t \<Rightarrow>
          if items self \<noteq> []
          then self\<lparr> totals := Some (calculate_from_items py_sum t (items self) tolerance) \<rparr>
          else self
      | None \<Rightarrow> self)"

record InvalidReceipt =
  inv_is_receipt :: bool
  inv_reason :: string

datatype receipt_model = Receipt ReceiptData | Invalid InvalidReceipt

text \<open>
  The library functions \<open>parse_receipt_json\<close> relies on: \<open>json.loads\<close> (\<open>Inl\<close> is the
  exception it raises, a \<open>JSONDecodeError\<close> or another one), pydantic's parsing of a
  decoded dict into the typed arguments of the two models (\<open>Inl\<close> is its
  \<open>ValidationError\<close>, or the \<open>TypeError\<close> of \<open>**data\<close> on something that is not a
  mapping), and the built-in \<open>sum\<close> on floats.
\<close>

record libs =
  json_loads :: "string \<Rightarrow> exn + pyval"
  receipt_args :: "pyval \<Rightarrow> exn + ReceiptData_args"
  invalid_args :: "pyval \<Rightarrow> exn + InvalidReceipt"
  float_sum :: "pyfloat list \<Rightarrow> pyfloat"

definition parse_receipt_json :: "libs \<Rightarrow> string \<Rightarrow> exn + receipt_model" where
  "parse_receipt_json L json_str =
     (case json_loads L json_str of
        Inl (Exn cls msg) \<Rightarrow>
          if cls = ''JSONDecodeError''
          then Inl (Exn ''ValueError'' (''Invalid JSON: '' @ msg))
          else Inl (Exn cls msg)
      | Inl e \<Rightarrow> Inl e
      | Inr data \<Rightarrow>
          try_bind (py_get data ''is_receipt'' PNone) (\<lambda>flag.
            if flag \<noteq> PBool True
            then try_bind (invalid_args L data) (\<lambda>ir. Inr (Invalid ir))
            else try_bind (receipt_args L data) (\<lambda>args.
                   try_bind (ReceiptData_init args) (\<lambda>receipt.
                     Inr (Receipt (validate_totals (float_sum L) receipt default_tolerance))))))"


section \<open>The decoder json.loads on a candidate\<close>

text \<open>
  The Span Extractor calls the standard library's \<open>json.loads\<close> only to learn whether a
  candidate decodes, and if not, which exception is raised. The decoder is not part of the
  repository. The strings of its grammar are described by a pushdown recogniser that
  reads the candidate once, left to right; a state is the mode of the scan together with
  the stack of containers that are still open. The grammar is the one of the CPython
  decoder: RFC 8259 values (an object, an array, a string, a number, \<open>true\<close>, \<open>false\<close>,
  \<open>null\<close>) at top level, the three extra literals \<open>NaN\<close>, \<open>Infinity\<close> and
  \<open>-Infinity\<close>, whitespace (space, tab, line feed, carriage return) around every token,
  no control character inside a string, and the escapes (a backslash followed by a double
  quote, a backslash, a slash, or one of \<open>b f n r t\<close>, or by \<open>u\<close> and four hexadecimal
  digits).
\<close>

datatype container = Obj | Arr

datatype jmode =
    MValue
  | MFirstElem
  | MFirstKey
  | MKey
  | MColon
  | MAfter
  | MStr bool
  | MEsc bool
  | MHex nat bool
  | MLit string
  | MMinus
  | MZero
  | MInt
  | MDot
  | MFrac
  | MExp
  | MExpSign
  | MExpDigits

type_synonym jstate = "jmode \<times> container list"

definition json_ws :: "char \<Rightarrow> bool" where
  "json_ws c \<longleftrightarrow> c = CHR '' '' \<or> c = CHR 0x09 \<or> c = CHR 0x0A \<or> c = CHR 0x0D"

definition is_digit :: "char \<Rightarrow> bool" where
  "is_digit c \<longleftrightarrow> (48::nat) \<le> of_char c \<and> of_char c \<le> (57::nat)"

definition is_digit19 :: "char \<Rightarrow> bool" where
  "is_digit19 c \<longleftrightarrow> (49::nat) \<le> of_char c \<and> of_char c \<le> (57::nat)"

definition is_hex :: "char \<Rightarrow> bool" where
  "is_hex c \<longleftrightarrow> is_digit c
     \<or> ((65::nat) \<le> of_char c \<and> of_char c \<le> (70::nat))
     \<or> ((97::nat) \<le> of_char c \<and> of_char c \<le> (102::nat))"

definition is_control :: "char \<Rightarrow> bool" where
  "is_control c \<longleftrightarrow> of_char c < (32::nat)"

definition start_value :: "container list \<Rightarrow> char \<Rightarrow> jstate option" where
  "start_value st c =
     (if c = CHR 0x22 then Some (MStr False, st)
      else if c = CHR ''{'' then Some (MFirstKey, Obj # st)
      else if c = CHR ''['' then Some (MFirstElem, Arr # st)
      else if c = CHR ''n'' then Some (MLit ''ull'', st)
      else if c = CHR ''t'' then Some (MLit ''rue'', st)
      else if c = CHR ''f'' then Some (MLit ''alse'', st)
      else if c = CHR ''N'' then Some (MLit ''aN'', st)
      else if c = CHR ''I'' then Some (MLit ''nfinity'', st)
      else if c = CHR ''-'' then Some (MMinus, st)
      else if c = CHR ''0'' then Some (MZero, st)
      else if is_digit19 c then Some (MInt, st)
      else None)"

definition after_value :: "container list \<Rightarrow> char \<Rightarrow> jstate option" where
  "after_value st c =
     (if json_ws c then Some (MAfter, st)
      else case st of
        [] \<Rightarrow> None
      | Obj # rest \<Rightarrow>
          if c = CHR '','' then Some (MKey, st)
          else if c = CHR ''}'' then Some (MAfter, rest)
          else None
      | Arr # rest \<Rightarrow>
          if c = CHR '','' then Some (MValue, st)
          else if c = CHR '']'' then Some (MAfter, rest)
          else None)"

fun jstep :: "jstate \<Rightarrow> char \<Rightarrow> jstate option" where
  "jstep (MValue, st) c = (if json_ws c then Some (MValue, st) else start_value st c)"
| "jstep (MFirstElem, st) c =
     (if json_ws c then Some (MFirstElem, st)
      else if c = CHR '']'' then (case st of Arr # rest \<Rightarrow> Some (MAfter, rest) | _ \<Rightarrow> None)
      else start_value st c)"
| "jstep (MFirstKey, st) c =
     (if json_ws c then Some (MFirstKey, st)
      else if c = CHR 0x22 then Some (MStr True, st)
      else if c = CHR ''}'' then (case st of Obj # rest \<Rightarrow> Some (MAfter, rest) | _ \<Rightarrow> None)
      else None)"
| "jstep (MKey, st) c =
     (if json_ws c then Some (MKey, st)
      else if c = CHR 0x22 then Some (MStr True, st)
      else None)"
| "jstep (MColon, st) c =
     (if json_ws c then Some (MColon, st)
      else if c = CHR '':'' then Some (MValue, st)
      else None)"
| "jstep (MAfter, st) c = after_value st c"
| "jstep (MStr k, st) c =
     (if c = CHR 0x22 then Some (if k then MColon else MAfter, st)
      else if c = CHR 0x5C then Some (MEsc k, st)
      else if is_control c then None
      else Some (MStr k, st))"
| "jstep (MEsc k, st) c =
     (if c \<in> set [CHR 0x22, CHR 0x5C, CHR ''/'', CHR ''b'', CHR ''f'', CHR ''n'', CHR ''r'', CHR ''t'']
      then Some (MStr k, st)
      else if c = CHR ''u'' then Some (MHex 4 k, st)
      else None)"
| "jstep (MHex n k, st) c =
     (if is_hex c then Some (if n \<le> 1 then MStr k else MHex (n - 1) k, st) else None)"
| "jstep (MLit w, st) c =
     (case w of
        [] \<Rightarrow> None
      | x # xs \<Rightarrow> if c = x then Some (if xs = [] then MAfter else MLit xs, st) else None)"
| "jstep (MMinus, st) c =
     (if c = CHR ''0'' then Some (MZero, st)
      else if is_digit19 c then Some (MInt, st)
      else if c = CHR ''I'' then Some (MLit ''nfinity'', st)
      else None)"
| "jstep (MZero, st) c =
     (if c = CHR ''.'' then Some (MDot, st)
      else if c = CHR ''e'' \<or> c = CHR ''E'' then Some (MExp, st)
      else after_value st c)"
| "jstep (MInt, st) c =
     (if is_digit c then Some (MInt, st)
      else if c = CHR ''.'' then Some (MDot, st)
      else if c = CHR ''e'' \<or> c = CHR ''E'' then Some (MExp, st)
      else after_value st c)"
| "jstep (MDot, st) c = (if is_digit c then Some (MFrac, st) else None)"
| "jstep (MFrac, st) c =
     (if is_digit c then Some (MFrac, st)
      else if c = CHR ''e'' \<or> c = CHR ''E'' then Some (MExp, st)
      else after_value st c)"
| "jstep (MExp, st) c =
     (if c = CHR ''+'' \<or> c = CHR ''-'' then Some (MExpSign, st)
      else if is_digit c then Some (MExpDigits, st)
      else None)"
| "jstep (MExpSign, st) c = (if is_digit c then Some (MExpDigits, st) else None)"
| "jstep (MExpDigits, st) c =
     (if is_digit c then Some (MExpDigits, st) else after_value st c)"

fun jrun :: "jstate \<Rightarrow> string \<Rightarrow> jstate option" where
  "jrun s [] = Some s"
| "jrun s (c # cs) = (case jstep s c of None \<Rightarrow> None | Some s' \<Rightarrow> jrun s' cs)"

definition value_complete :: "jmode \<Rightarrow> bool" where
  "value_complete m \<longleftrightarrow> m \<in> set [MAfter, MZero, MInt, MFrac, MExpDigits]"

text \<open>The strings of the grammar: the scan ends on a complete value with no container open.\<close>

definition well_formed_json :: "string \<Rightarrow> bool" where
  "well_formed_json s =
     (case jrun (MValue, []) s of
        Some (m, st) \<Rightarrow> value_complete m \<and> st = []
      | None \<Rightarrow> False)"

subsection \<open>The limits of the interpreter\<close>

text \<open>
  Besides \<open>JSONDecodeError\<close> the decoder raises two exceptions that come from limits of
  the interpreter. An integer literal of more than \<open>int_max_str_digits\<close> digits (4300
  unless configured otherwise; 0 switches the limit off) makes the conversion of the
  literal raise a plain \<open>ValueError\<close>; a number with a fraction or an exponent is a float
  and has no such limit. Entering more nested containers than the recursion limit leaves
  room for raises \<open>RecursionError\<close>; \<open>max_nesting\<close> is the depth still available
  when the decoder is called.

  \<open>json_scan\<close> reads the candidate with the recogniser and reports the first event
  from the left: \<open>None\<close> when \<open>json.loads\<close> returns a value, otherwise the exception.
  Its third argument is the number of digits of the integer part being read. An
  integer literal ends, and is converted, where the digits stop without a fraction or
  an exponent being completed: in the modes \<open>MInt\<close>, \<open>MDot\<close>, \<open>MExp\<close> and
  \<open>MExpSign\<close>, the last three when they were entered from the integer part.
\<close>

record interpreter =
  int_max_str_digits :: nat
  max_nesting :: nat

definition decode_error :: exn where
  "decode_error = Exn ''JSONDecodeError'' ''Expecting value''"

definition int_limit_error :: exn where
  "int_limit_error = Exn ''ValueError'' ''Exceeds the limit for integer string conversion''"

definition recursion_error :: exn where
  "recursion_error = Exn ''RecursionError'' ''maximum recursion depth exceeded''"

definition too_long :: "interpreter \<Rightarrow> nat \<Rightarrow> bool" where
  "too_long I d \<longleftrightarrow> 0 < int_max_str_digits I \<and> int_max_str_digits I < d"

definition int_pending :: "jmode \<Rightarrow> bool" where
  "int_pending m \<longleftrightarrow> m \<in> set [MInt, MDot, MExp, MExpSign]"

definition next_digits :: "jmode \<Rightarrow> nat \<Rightarrow> jmode \<Rightarrow> nat" where
  "next_digits m d m' =
     (if m' = MInt then (if m = MInt then Suc d else 1)
      else if m' = MZero then 1
      else if m = MFrac then 0
      else if m' \<in> set [MDot, MExp, MExpSign] then d
      else 0)"

fun json_scan :: "interpreter \<Rightarrow> jstate \<Rightarrow> nat \<Rightarrow> string \<Rightarrow> exn option" where
  "json_scan I (m, st) d [] =
     (if int_pending m \<and> too_long I d then Some int_limit_error
      else if value_complete m \<and> st = [] then None
      else Some decode_error)"
| "json_scan I (m, st) d (c # cs) =
     (case jstep (m, st) c of
        None \<Rightarrow> Some (if int_pending m \<and> too_long I d then int_limit_error else decode_error)
      | Some (m', st') \<Rightarrow>
          if m = MInt \<and> \<not> int_pending m' \<and> too_long I d then Some int_limit_error
          else if length st < length st' \<and> max_nesting I < length st' then Some recursion_error
          else json_scan I (m', st') (next_digits m d m') cs)"

text \<open>\<open>json.loads(s)\<close>, as far as its caller observes it without using the value.\<close>

definition json_loads_raises :: "interpreter \<Rightarrow> string \<Rightarrow> exn option" where
  "json_loads_raises I s = json_scan I (MValue, []) 0 s"


section \<open>JSON Span Extractor (response\_parser.py)\<close>

subsection \<open>The fenced block\<close>

text \<open>
  The search \<open>re.search\<close> for the pattern made of the fence \<open>```json\<close>, optional
  whitespace, a lazy group of any characters (\<open>re.DOTALL\<close>), optional whitespace and
  the closing fence \<open>```\<close>, and its \<open>group(1)\<close>. The search tries each start position
  from the left (\<open>re_search\<close>); at one position the pattern needs the literal fence
  (\<open>match_here\<close>), then the greedy whitespace takes all it can and gives it back one
  character at a time when the rest fails (\<open>after_fence\<close>), and the lazy group grows
  one character at a time until whitespace and a closing fence follow (\<open>lazy_group\<close>,
  whose accumulator holds the group so far, reversed). The trailing whitespace is greedy
  as well, but a whitespace character is never a backquote, so only the whole run can be
  followed by the closing fence. \<open>re_space\<close> is the whitespace class of a \<open>str\<close>
  pattern, on the code points below 256.
\<close>

definition re_space :: "char \<Rightarrow> bool" where
  "re_space c \<longleftrightarrow> of_char c \<in> set [9, 10, 11, 12, 13, 28, 29, 30, 31, 32, 133, 160 :: nat]"

fun lazy_group :: "string \<Rightarrow> string \<Rightarrow> string option" where
  "lazy_group acc [] = None"
| "lazy_group acc (c # cs) =
     (if prefix ''```'' (dropWhile re_space (c # cs)) then Some (rev acc)
      else lazy_group (c # acc) cs)"

definition after_fence :: "string \<Rightarrow> string option" where
  "after_fence r =
     (case List.map_filter (\<lambda>k. lazy_group [] (drop k r))
             (rev [0 ..< Suc (length (takeWhile re_space r))]) of
        [] \<Rightarrow> None
      | g # _ \<Rightarrow> Some g)"

definition match_here :: "string \<Rightarrow> string option" where
  "match_here s = (if prefix ''```json'' s then after_fence (drop 7 s) else None)"

fun re_search :: "string \<Rightarrow> string option" where
  "re_search [] = None"
| "re_search (c # cs) =
     (case match_here (c # cs) of Some g \<Rightarrow> Some g | None \<Rightarrow> re_search cs)"

subsection \<open>The bracket-depth state machine\<close>

text \<open>
  The local variables of the loop are the fields of \<open>scan_state\<close>. \<open>loop_body\<close> is one
  iteration on the character \<open>c\<close> at index \<open>i\<close>; its second component tells whether
  the iteration ended in \<open>break\<close> (every \<open>continue\<close> and the normal end of the body are
  \<open>False\<close>). \<open>scan_loop\<close> is the \<open>for\<close> loop over \<open>enumerate(response_text)\<close>.
\<close>

record scan_state =
  start_pos :: int
  end_pos :: int
  depth :: int
  in_string :: bool
  escape_next :: bool
  open_char :: "char option"
  close_char :: "char option"

definition initial_state :: scan_state where
  "initial_state =
     \<lparr> start_pos = -1, end_pos = -1, depth = 0, in_string = False, escape_next = False,
       open_char = None, close_char = None \<rparr>"

definition loop_body :: "scan_state \<Rightarrow> nat \<Rightarrow> char \<Rightarrow> scan_state \<times> bool" where
  "loop_body st i c =
     (if escape_next st then (st\<lparr> escape_next := False \<rparr>, False)
      else if c = CHR 0x5C then (st\<lparr> escape_next := True \<rparr>, False)
      else
        let st1 = (if c = CHR 0x22 \<and> \<not> escape_next st
                   then st\<lparr> in_string := \<not> in_string st \<rparr> else st)
        in if in_string st1 then (st1, False)
           else if start_pos st1 = -1 then
             (if c = CHR ''{''
              then (st1\<lparr> start_pos := int i, open_char := Some (CHR ''{''),
                         close_char := Some (CHR ''}''), depth := 1 \<rparr>, False)
              else if c = CHR ''[''
              then (st1\<lparr> start_pos := int i, open_char := Some (CHR ''[''),
                         close_char := Some (CHR '']''), depth := 1 \<rparr>, False)
              else (st1, False))
           else if Some c = open_char st1 then (st1\<lparr> depth := depth st1 + 1 \<rparr>, False)
           else if Some c = close_char st1 then
             (let st2 = st1\<lparr> depth := depth st1 - 1 \<rparr>
              in if depth st2 = 0 then (st2\<lparr> end_pos := int i + 1 \<rparr>, True)
                 else (st2, False))
           else (st1, False))"

fun scan_loop :: "scan_state \<Rightarrow> nat \<Rightarrow> string \<Rightarrow> scan_state" where
  "scan_loop st i [] = st"
| "scan_loop st i (c # cs) =
     (case loop_body st i c of
        (st', stop) \<Rightarrow> if stop then st' else scan_loop st' (Suc i) cs)"

text \<open>\<open>s[lo:hi]\<close> for indices that are not negative.\<close>

definition py_slice :: "string \<Rightarrow> int \<Rightarrow> int \<Rightarrow> string" where
  "py_slice s lo hi = take (nat hi - nat lo) (drop (nat lo) s)"

subsection \<open>extract\_json\_from\_response\<close>

text \<open>
  The two stages of the method. Each tries \<open>json.loads\<close> on its candidate inside
  \<open>try ... except json.JSONDecodeError: pass\<close>: \<open>try_candidate\<close> is \<open>Inr (Some s)\<close>
  when the candidate decodes and is returned, \<open>Inr None\<close> when the decoder raises
  \<open>JSONDecodeError\<close> and the method goes on, and \<open>Inl e\<close> when the decoder raises
  another exception, which leaves the method. \<open>fenced_json\<close> is the stage of the fenced
  block, \<open>scanned_json\<close> the stage of the state machine; when neither returns, the
  method raises the \<open>ValueError\<close> \<open>no_json_found\<close>.
\<close>

definition try_candidate :: "interpreter \<Rightarrow> string \<Rightarrow> exn + string option" where
  "try_candidate I potential_json =
     (case json_loads_raises I potential_json of
        None \<Rightarrow> Inr (Some potential_json)
      | Some e \<Rightarrow> if is_JSONDecodeError e then Inr None else Inl e)"

definition fenced_json :: "interpreter \<Rightarrow> string \<Rightarrow> exn + string option" where
  "fenced_json I response_text =
     (case re_search response_text of
        Some potential_json \<Rightarrow> try_candidate I potential_json
      | None \<Rightarrow> Inr None)"

definition scanned_json :: "interpreter \<Rightarrow> string \<Rightarrow> exn + string option" where
  "scanned_json I response_text =
     (let st = scan_loop initial_state 0 response_text
      in if start_pos st \<noteq> -1 \<and> end_pos st \<noteq> -1
         then try_candidate I (py_slice response_text (start_pos st) (end_pos st))
         else Inr None)"

definition no_json_found :: exn where
  "no_json_found =
     Exn ''ValueError'' ''Impossible d'extraire un objet ou un tableau JSON complet et valide.''"

definition extract_json_from_response :: "interpreter \<Rightarrow> string \<Rightarrow> exn + string" where
  "extract_json_from_response I response_text =
     (case fenced_json I response_text of
        Inl e \<Rightarrow> Inl e
      | Inr (Some potential_json) \<Rightarrow> Inr potential_json
      | Inr None \<Rightarrow>
          (case scanned_json I response_text of
             Inl e \<Rightarrow> Inl e
           | Inr (Some potential_json) \<Rightarrow> Inr potential_json
           | Inr None \<Rightarrow> Inl no_json_found))"


section \<open>Backoff Stats Fetcher (openrouter\_client.py)\<close>

text \<open>
  \<open>get_generation_stats\<close> talks to the network and to the random generator. Both are
  parameters of the model: \<open>http_get n\<close> is what the request of attempt \<open>n\<close> (counted
  from zero) does, an exception or a response with its \<open>status_code\<close> and the outcome
  of its \<open>json()\<close> method, and \<open>random_draw n\<close> is the number in the unit interval that
  \<open>random.random()\<close> yields in that attempt. \<open>max_retries\<close> and \<open>delay\<close> are the two
  settings read from the configuration. Delays are
  real numbers of seconds.
\<close>

datatype http_response = Response (status_code: int) (json_body: "exn + pyval")

record stats_env =
  http_get :: "nat \<Rightarrow> exn + http_response"
  random_draw :: "nat \<Rightarrow> real"
  max_retries :: int
  delay :: real

text \<open>\<open>random.uniform(a, b)\<close> is \<open>a + (b - a) * random.random()\<close>.\<close>

definition uniform :: "real \<Rightarrow> real \<Rightarrow> real \<Rightarrow> real" where
  "uniform a b u = a + (b - a) * u"

text \<open>The argument of \<open>asyncio.sleep\<close> in attempt \<open>attempt\<close>.\<close>

definition total_delay :: "stats_env \<Rightarrow> nat \<Rightarrow> real" where
  "total_delay E attempt =
     (let base_delay = delay E;
          d = base_delay * (2 ^ attempt);
          jitter = uniform 0 (d * 0.1) (random_draw E attempt)
      in d + jitter)"

text \<open>The body of the branch for status 200: \<open>response.json().get("data", {})\<close>.\<close>

definition stats_of :: "http_response \<Rightarrow> exn + pyval" where
  "stats_of response =
     try_bind (json_body response) (\<lambda>json_data. py_get json_data ''data'' (PDict []))"

text \<open>
  The \<open>for attempt in range(max_retries)\<close> loop, with the number of iterations left as
  first argument. The result is the outcome, a returned value (\<open>PNone\<close> is \<open>None\<close>)
  or an exception that leaves the method, and the list of the sleeps made, in order.
  \<open>sleep_and_continue\<close> is the branch shared by a 404 and by the exception handler:
  sleep and go to the next attempt. \<open>on_exception\<close> is the clause
  \<open>except Exception\<close>, which covers the request and the branch for status 200.
\<close>

fun attempts :: "stats_env \<Rightarrow> nat \<Rightarrow> nat \<Rightarrow> (exn + pyval) \<times> real list" where
  "attempts E 0 attempt = (Inr PNone, [])"
| "attempts E (Suc n) attempt =
     (let sleep_and_continue =
            (case attempts E n (Suc attempt) of
               (result, sleeps) \<Rightarrow> (result, total_delay E attempt # sleeps));
          on_exception = (\<lambda>e.
            if is_Exception e then
              (if int attempt < max_retries E - 1 then sleep_and_continue else (Inr PNone, []))
            else (Inl e, []))
      in case http_get E attempt of
           Inl e \<Rightarrow> on_exception e
         | Inr response \<Rightarrow>
             if status_code response = 200 then
               (case stats_of response of
                  Inr stats \<Rightarrow> (Inr stats, [])
                | Inl e \<Rightarrow> on_exception e)
             else if status_code response = 404 \<and> int attempt < max_retries E - 1
             then sleep_and_continue
             else (Inr PNone, []))"

definition get_generation_stats :: "stats_env \<Rightarrow> (exn + pyval) \<times> real list" where
  "get_generation_stats E = attempts E (nat (max_retries E)) 0"

text \<open>
  An attempt that is retried while attempts remain: the request raises an exception that
  \<open>except Exception\<close> catches, the status is 404, or the status is 200 and reading
  the \<open>data\<close> member raises such an exception (the body is not JSON, or not an object).
\<close>

definition retryable :: "stats_env \<Rightarrow> nat \<Rightarrow> bool" where
  "retryable E n =
     (case http_get E n of
        Inl e \<Rightarrow> is_Exception e
      | Inr response \<Rightarrow>
          status_code response = 404 \<or>
          (status_code response = 200 \<and>
           (case stats_of response of Inl e \<Rightarrow> is_Exception e | Inr stats \<Rightarrow> False)))"


section \<open>Error handler (error\_handler.py)\<close>

text \<open>
  The dictionary that \<open>extract\<close> returns is a record with one field per key;
  \<open>None\<close> in an optional field means that the key is absent. \<open>res_data\<close> is the value
  under \<open>data\<close>: \<open>None\<close>, the dump of the model the Schema Validator returned, or the
  decoded validation answer as it is. \<open>res_error\<close> is the pair of the handler's prefix
  and the exception whose \<open>str()\<close> follows it in the message.
\<close>

datatype payload = NoData | Dumped receipt_model | RawData pyval

record result =
  res_success :: bool
  res_data :: payload
  res_is_receipt :: "bool option"
  res_usage :: "pyval option"
  res_metrics :: "pyval option"
  res_error :: "(string \<times> exn) option"
  res_raw_response :: "pyval option"

definition failure :: "string \<Rightarrow> exn \<Rightarrow> result" where
  "failure label error =
     \<lparr> res_success = False, res_data = NoData, res_is_receipt = None, res_usage = None,
       res_metrics = None, res_error = Some (label, error), res_raw_response = None \<rparr>"

definition handle_image_processing_error :: "exn \<Rightarrow> result" where
  "handle_image_processing_error error = failure ''Erreur de traitement image : '' error"

definition handle_api_error :: "exn \<Rightarrow> result" where
  "handle_api_error error = failure ''Erreur API : '' error"

definition handle_parsing_error :: "exn \<Rightarrow> pyval \<Rightarrow> result" where
  "handle_parsing_error error raw_response =
     (let result = failure ''Erreur de parsing : '' error
      in if py_truthy raw_response
         then result\<lparr> res_raw_response := Some raw_response \<rparr>
         else result)"

definition handle_validation_error :: "exn \<Rightarrow> result" where
  "handle_validation_error error = failure ''Erreur validation : '' error"

definition handle_api_validation_error :: "exn \<Rightarrow> result" where
  "handle_api_validation_error error = failure ''Erreur API validation : '' error"

definition handle_api_extraction_error :: "exn \<Rightarrow> result" where
  "handle_api_extraction_error error = failure ''Erreur API extraction : '' error"


text \<open>
  A failure that names its stage: a result without success whose error carries one of
  the six prefixes of the handlers.
\<close>

definition stage_labels :: "string list" where
  "stage_labels =
     [''Erreur de traitement image : '', ''Erreur API : '', ''Erreur de parsing : '',
      ''Erreur validation : '', ''Erreur API validation : '', ''Erreur API extraction : '']"

definition stage_failure :: "result \<Rightarrow> bool" where
  "stage_failure r \<longleftrightarrow>
     \<not> res_success r \<and>
     (case res_error r of Some (label, error) \<Rightarrow> label \<in> set stage_labels | None \<Rightarrow> False)"

section \<open>Extraction Orchestrator (extraction\_orchestrator.py)\<close>

text \<open>
  The orchestrator receives its collaborators by injection; they are the fields of
  \<open>collaborators\<close>, each returning its value or the exception it raises. The API client
  is an object with state: \<open>analyze_receipt n\<close> is the call made after \<open>n\<close> earlier
  calls of the same run. \<open>extract_json\<close> is the response parser, applied to whatever
  the response holds under \<open>content\<close>; \<open>library\<close> holds \<open>json.loads\<close> and pydantic. The
  three token budgets come from the configuration. The error handler is the class
  \<open>ErrorHandler\<close> of the repository, as the entry points wire it.

  Every function returns the outcome together with the list of API calls issued, each
  call as its prompt and token budget. An outcome \<open>Inr\<close> is the returned dictionary;
  \<open>Inl\<close> is an exception that leaves \<open>extract\<close>. Every \<open>except\<close> clause of the
  orchestrator is \<open>except Exception\<close>: it handles the exceptions for which
  \<open>is_Exception\<close> holds and lets the others pass.
\<close>

record collaborators =
  process_image_in_memory :: "string \<Rightarrow> bool \<Rightarrow> exn + (string \<times> string)"
  build_extraction_prompt :: "bool \<Rightarrow> exn + string"
  build_validation_only_prompt :: "exn + string"
  analyze_receipt :: "nat \<Rightarrow> string \<Rightarrow> string \<Rightarrow> string \<Rightarrow> int \<Rightarrow> exn + pyval"
  extract_json :: "pyval \<Rightarrow> exn + string"
  library :: libs
  one_shot_max_tokens :: int
  validation_max_tokens :: int
  extraction_max_tokens :: int

type_synonym api_call = "string \<times> int"

text \<open>The \<open>try\<close> block that ends \<open>_extract_one_shot\<close>.\<close>

definition one_shot_try :: "collaborators \<Rightarrow> pyval \<Rightarrow> exn + result" where
  "one_shot_try C response =
     try_bind (py_getitem response ''content'') (\<lambda>content.
     try_bind (extract_json C content) (\<lambda>json_content.
     try_bind (parse_receipt_json (library C) json_content) (\<lambda>receipt_data.
     try_bind (py_get response ''usage'' (PDict [])) (\<lambda>usage.
     try_bind (py_get response ''metrics'' (PDict [])) (\<lambda>metrics.
     try_bind (py_getitem response ''content'') (\<lambda>raw.
       Inr \<lparr> res_success = True,
             res_data = Dumped receipt_data,
             res_is_receipt = Some (case receipt_data of Receipt r \<Rightarrow> True | Invalid r \<Rightarrow> False),
             res_usage = Some usage,
             res_metrics = Some metrics,
             res_error = None,
             res_raw_response = Some raw \<rparr>))))))"

definition extract_one_shot ::
  "collaborators \<Rightarrow> string \<times> string \<Rightarrow> (exn + result) \<times> api_call list" where
  "extract_one_shot C image_data =
     (case image_data of (image_bytes, mime_type) \<Rightarrow>
      case build_extraction_prompt C True of
        Inl e \<Rightarrow> (Inl e, [])
      | Inr prompt \<Rightarrow>
          let calls = [(prompt, one_shot_max_tokens C)]
          in case analyze_receipt C 0 image_bytes mime_type prompt (one_shot_max_tokens C) of
               Inl e \<Rightarrow>
                 if is_Exception e then (Inr (handle_api_error e), calls) else (Inl e, calls)
             | Inr response \<Rightarrow>
                 (case py_getitem response ''success'' of
                    Inl e \<Rightarrow> (Inl e, calls)
                  | Inr ok \<Rightarrow>
                      if \<not> py_truthy ok then
                        (case py_getitem response ''error'' of
                           Inl e \<Rightarrow> (Inl e, calls)
                         | Inr err \<Rightarrow> (Inr (handle_api_error (Exception err)), calls))
                      else
                        (case one_shot_try C response of
                           Inr r \<Rightarrow> (Inr r, calls)
                         | Inl e \<Rightarrow>
                             if is_Exception e then
                               (case py_getitem response ''content'' of
                                  Inl e' \<Rightarrow> (Inl e', calls)
                                | Inr raw \<Rightarrow> (Inr (handle_parsing_error e raw), calls))
                             else (Inl e, calls))))"

text \<open>
  The \<open>try\<close> block after the validation call: \<open>Some\<close> is the dictionary returned from
  inside the block, \<open>None\<close> means that the block ends and the method goes on.
\<close>

definition validation_try :: "collaborators \<Rightarrow> pyval \<Rightarrow> exn + result option" where
  "validation_try C validation_response =
     try_bind (py_getitem validation_response ''content'') (\<lambda>content.
     try_bind (extract_json C content) (\<lambda>validation_json.
     try_bind (json_loads (library C) validation_json) (\<lambda>validation_data.
     try_bind (py_get validation_data ''is_receipt'' (PBool False)) (\<lambda>flag.
       if \<not> py_truthy flag then
         try_bind (py_get validation_response ''usage'' (PDict [])) (\<lambda>usage.
         try_bind (py_get validation_response ''metrics'' (PDict [])) (\<lambda>metrics.
           Inr (Some \<lparr> res_success = True,
                        res_data = RawData validation_data,
                        res_is_receipt = Some False,
                        res_usage = Some usage,
                        res_metrics = Some metrics,
                        res_error = None,
                        res_raw_response = None \<rparr>)))
       else Inr None))))"

text \<open>The \<open>try\<close> block that ends \<open>_extract_two_step\<close>.\<close>

definition extraction_try :: "collaborators \<Rightarrow> pyval \<Rightarrow> pyval \<Rightarrow> exn + result" where
  "extraction_try C validation_response extraction_response =
     try_bind (py_getitem extraction_response ''content'') (\<lambda>content.
     try_bind (extract_json C content) (\<lambda>json_content.
     try_bind (parse_receipt_json (library C) json_content) (\<lambda>receipt_data.
     try_bind (py_get validation_response ''usage'' (PDict [])) (\<lambda>validation_usage.
     try_bind (py_get extraction_response ''usage'' (PDict [])) (\<lambda>extraction_usage.
     try_bind (py_get validation_usage ''total_tokens'' (PInt 0)) (\<lambda>validation_tokens.
     try_bind (py_get extraction_usage ''total_tokens'' (PInt 0)) (\<lambda>extraction_tokens.
     try_bind (py_add validation_tokens extraction_tokens) (\<lambda>total_tokens.
     try_bind (py_get validation_response ''metrics'' (PDict [])) (\<lambda>validation_metrics.
     try_bind (py_get extraction_response ''metrics'' (PDict [])) (\<lambda>extraction_metrics.
     try_bind (py_getitem extraction_response ''content'') (\<lambda>raw.
       let total_usage = PDict [(''validation'', validation_usage),
                                (''extraction'', extraction_usage),
                                (''total_tokens'', total_tokens)];
           combined_metrics = PDict [(''validation'', validation_metrics),
                                     (''extraction'', extraction_metrics)]
       in Inr \<lparr> res_success = True,
                res_data = Dumped receipt_data,
                res_is_receipt = Some True,
                res_usage = Some total_usage,
                res_metrics = Some combined_metrics,
                res_error = None,
                res_raw_response = Some raw \<rparr>)))))))))))"

text \<open>The second half of \<open>_extract_two_step\<close>, from the extraction prompt on.\<close>

definition extraction_stage ::
  "collaborators \<Rightarrow> string \<times> string \<Rightarrow> pyval \<Rightarrow> api_call \<Rightarrow> (exn + result) \<times> api_call list"
  where
  "extraction_stage C image_data validation_response first_call =
     (case image_data of (image_bytes, mime_type) \<Rightarrow>
      case build_extraction_prompt C False of
        Inl e \<Rightarrow> (Inl e, [first_call])
      | Inr extraction_prompt \<Rightarrow>
          let calls = [first_call, (extraction_prompt, extraction_max_tokens C)]
          in case analyze_receipt C 1 image_bytes mime_type extraction_prompt
                    (extraction_max_tokens C) of
               Inl e \<Rightarrow>
                 if is_Exception e then (Inr (handle_api_extraction_error e), calls)
                 else (Inl e, calls)
             | Inr extraction_response \<Rightarrow>
                 (case py_getitem extraction_response ''success'' of
                    Inl e \<Rightarrow> (Inl e, calls)
                  | Inr ok \<Rightarrow>
                      if \<not> py_truthy ok then
                        (case py_getitem extraction_response ''error'' of
                           Inl e \<Rightarrow> (Inl e, calls)
                         | Inr err \<Rightarrow>
                             (Inr (handle_api_extraction_error (Exception err)), calls))
                      else
                        (case extraction_try C validation_response extraction_response of
                           Inr r \<Rightarrow> (Inr r, calls)
                         | Inl e \<Rightarrow>
                             if is_Exception e then
                               (case py_getitem extraction_response ''content'' of
                                  Inl e' \<Rightarrow> (Inl e', calls)
                                | Inr raw \<Rightarrow> (Inr (handle_parsing_error e raw), calls))
                             else (Inl e, calls))))"

definition extract_two_step ::
  "collaborators \<Rightarrow> string \<times> string \<Rightarrow> (exn + result) \<times> api_call list" where
  "extract_two_step C image_data =
     (case image_data of (image_bytes, mime_type) \<Rightarrow>
      case build_validation_only_prompt C of
        Inl e \<Rightarrow> (Inl e, [])
      | Inr validation_prompt \<Rightarrow>
          let first_call = (validation_prompt, validation_max_tokens C)
          in case analyze_receipt C 0 image_bytes mime_type validation_prompt
                    (validation_max_tokens C) of
               Inl e \<Rightarrow>
                 if is_Exception e then (Inr (handle_api_validation_error e), [first_call])
                 else (Inl e, [first_call])
             | Inr validation_response \<Rightarrow>
                 (case py_getitem validation_response ''success'' of
                    Inl e \<Rightarrow> (Inl e, [first_call])
                  | Inr ok \<Rightarrow>
                      if \<not> py_truthy ok then
                        (case py_getitem validation_response ''error'' of
                           Inl e \<Rightarrow> (Inl e, [first_call])
                         | Inr err \<Rightarrow>
                             (Inr (handle_api_validation_error (Exception err)), [first_call]))
                      else
                        (case validation_try C validation_response of
                           Inl e \<Rightarrow>
                             if is_Exception e
                             then (Inr (handle_validation_error e), [first_call])
                             else (Inl e, [first_call])
                         | Inr (Some r) \<Rightarrow> (Inr r, [first_call])
                         | Inr None \<Rightarrow>
                             extraction_stage C image_data validation_response first_call)))"

definition "extract" ::
  "collaborators \<Rightarrow> string \<Rightarrow> bool \<Rightarrow> bool \<Rightarrow> (exn + result) \<times> api_call list" where
  "extract C image_path optimize_image two_step =
     (case process_image_in_memory C image_path optimize_image of
        Inl e \<Rightarrow>
          if is_Exception e then (Inr (handle_image_processing_error e), []) else (Inl e, [])
      | Inr image_data \<Rightarrow>
          if two_step then extract_two_step C image_data
          else extract_one_shot C image_data)"


section \<open>Notions for the proofs about the Span Extractor\<close>

text \<open>
  \<open>opener\<close> and \<open>closer\<close> are the brackets of a container; \<open>in_str\<close> and \<open>is_esc\<close>
  tell whether a mode of the recogniser is inside a string literal and right after a
  backslash; \<open>plain\<close> characters are those the state machine never reacts to.
  \<open>outside_effect\<close> describes one step of the recogniser outside a string literal, and
  \<open>tracking\<close> relates a state of the state machine, opened at index \<open>i0\<close> on a bracket
  of kind \<open>k\<close>, to a state of the recogniser reading the same characters.
\<close>

definition opener :: "container \<Rightarrow> char" where
  "opener k = (case k of Obj \<Rightarrow> CHR ''{'' | Arr \<Rightarrow> CHR ''['')"

definition closer :: "container \<Rightarrow> char" where
  "closer k = (case k of Obj \<Rightarrow> CHR ''}'' | Arr \<Rightarrow> CHR '']'')"

fun in_str :: "jmode \<Rightarrow> bool" where
  "in_str (MStr k) = True"
| "in_str (MEsc k) = True"
| "in_str (MHex n k) = True"
| "in_str m = False"

fun is_esc :: "jmode \<Rightarrow> bool" where
  "is_esc (MEsc k) = True"
| "is_esc m = False"

definition plain :: "char \<Rightarrow> bool" where
  "plain c \<longleftrightarrow> c \<notin> set [CHR 0x22, CHR 0x5C, CHR ''{'', CHR ''}'', CHR ''['', CHR '']'']"

fun lit_ok :: "jmode \<Rightarrow> bool" where
  "lit_ok (MLit w) = list_all plain w"
| "lit_ok m = True"

definition outside_effect :: "container list \<Rightarrow> char \<Rightarrow> jstate \<Rightarrow> bool" where
  "outside_effect stk c s' \<longleftrightarrow>
     c \<noteq> CHR 0x5C \<and> lit_ok (fst s') \<and>
     (c = CHR 0x22 \<longrightarrow> snd s' = stk \<and> in_str (fst s') \<and> \<not> is_esc (fst s')) \<and>
     (c \<noteq> CHR 0x22 \<longrightarrow> \<not> in_str (fst s')) \<and>
     (c = CHR ''{'' \<longrightarrow> snd s' = Obj # stk) \<and>
     (c = CHR ''['' \<longrightarrow> snd s' = Arr # stk) \<and>
     (c = CHR ''}'' \<longrightarrow> stk = Obj # snd s' \<and> fst s' = MAfter) \<and>
     (c = CHR '']'' \<longrightarrow> stk = Arr # snd s' \<and> fst s' = MAfter) \<and>
     (plain c \<longrightarrow> snd s' = stk)"

definition tracking :: "container \<Rightarrow> nat \<Rightarrow> scan_state \<Rightarrow> jstate \<Rightarrow> bool" where
  "tracking k i0 st js \<longleftrightarrow>
     snd js \<noteq> [] \<and> last (snd js) = k \<and>
     start_pos st = int i0 \<and>
     open_char st = Some (opener k) \<and> close_char st = Some (closer k) \<and>
     depth st = int (count_list (snd js) k) \<and>
     in_string st = in_str (fst js) \<and> escape_next st = is_esc (fst js) \<and>
     lit_ok (fst js)"


section \<open>Sample receipts\<close>

text \<open>
  The built-in \<open>sum\<close> of CPython before 3.12 on floats: one addition after the other,
  starting from 0. On the sample receipts every addition is exact.
\<close>

definition sequential_sum :: "pyfloat list \<Rightarrow> pyfloat" where
  "sequential_sum xs = foldl fadd float_zero xs"

text \<open>
  Stand-ins for the two libraries on one response text: \<open>json.loads\<close> decodes
  \<open>text\<close> to \<open>data\<close> and rejects every other string, and pydantic parses \<open>data\<close> to
  the arguments \<open>args\<close> of \<open>ReceiptData\<close>, or to \<open>rejected\<close> for \<open>InvalidReceipt\<close>.
\<close>

definition sample_libs ::
  "string \<Rightarrow> pyval \<Rightarrow> ReceiptData_args \<Rightarrow> InvalidReceipt \<Rightarrow> libs" where
  "sample_libs text data args rejected =
     \<lparr> json_loads = (\<lambda>s. if s = text then Inr data else Inl decode_error),
       receipt_args = (\<lambda>d. if d = data then Inr args
                            else Inl (ValidationError ''ReceiptData''
                                        [(''items'', ''Input should be a valid list'')])),
       invalid_args = (\<lambda>d. if d = data then Inr rejected
                            else Inl (ValidationError ''InvalidReceipt''
                                        [(''reason'', ''Field required'')])),
       float_sum = sequential_sum \<rparr>"

definition no_totals :: Totals where
  "no_totals = \<lparr> subtotal = None, tax = None, total = None,
                  total_calculated = None, total_matches = None \<rparr>"

definition sample_invalid :: InvalidReceipt where
  "sample_invalid = \<lparr> inv_is_receipt = False, inv_reason = ''blank page'' \<rparr>"

text \<open>
  The floats of the samples: \<open>Finite 3 (-1)\<close> is 1.5, \<open>Finite 25 (-1)\<close> is 12.5,
  \<open>minus_a_fifth\<close> is the float nearest to -0.2 and \<open>one_and_a_hundredth\<close> the float
  nearest to 1.01.
\<close>

definition minus_a_fifth :: pyfloat where
  "minus_a_fifth = Finite (-3602879701896397) (-54)"

definition one_and_a_hundredth :: pyfloat where
  "one_and_a_hundredth = Finite 4548635623644201 (-52)"

text \<open>A receipt with one refund line whose amounts are negative.\<close>

definition refund_text :: string where
  \<open>refund_text = ''{"is_receipt": true, "items": [{"description": "Refund", "quantity": -2, "unit_price": -1.5, "total_price": -3.0, "tax_rate": -0.2}]}''\<close>

definition refund_data :: pyval where
  "refund_data =
     PDict [(''is_receipt'', PBool True),
            (''items'', PList [PDict [(''description'', PStr ''Refund''),
                                      (''quantity'', PInt (-2)),
                                      (''unit_price'', PFloat (Finite (-3) (-1))),
                                      (''total_price'', PFloat (Finite (-3) 0)),
                                      (''tax_rate'', PFloat minus_a_fifth)]])]"

definition refund_args :: ReceiptData_args where
  "refund_args =
     \<lparr> arg_is_receipt = True, arg_category = None, arg_merchant = None,
       arg_transaction = None,
       arg_items = [\<lparr> arg_description = ''Refund'', arg_quantity = Some (Finite (-2) 0),
                      arg_unit_price = Some (Finite (-3) (-1)),
                      arg_total_price = Some (Finite (-3) 0),
                      arg_tax_rate = Some minus_a_fifth \<rparr>],
       arg_totals = None, arg_notes = None, arg_reason = None \<rparr>"

definition refund_libs :: libs where
  "refund_libs = sample_libs refund_text refund_data refund_args sample_invalid"

text \<open>Two items of 5.0 and 3.0 with a totals block that states no total.\<close>

definition two_items_text :: string where
  \<open>two_items_text = ''{"is_receipt": true, "items": [{"description": "a", "total_price": 5.0}, {"description": "b", "total_price": 3.0}], "totals": {}}''\<close>

definition two_items_data :: pyval where
  "two_items_data =
     PDict [(''is_receipt'', PBool True),
            (''items'', PList [PDict [(''description'', PStr ''a''),
                                      (''total_price'', PFloat (Finite 5 0))],
                               PDict [(''description'', PStr ''b''),
                                      (''total_price'', PFloat (Finite 3 0))]]),
            (''totals'', PDict [])]"

definition two_items_args :: ReceiptData_args where
  "two_items_args =
     \<lparr> arg_is_receipt = True, arg_category = None, arg_merchant = None,
       arg_transaction = None,
       arg_items = [\<lparr> arg_description = ''a'', arg_quantity = None, arg_unit_price = None,
                      arg_total_price = Some (Finite 5 0), arg_tax_rate = None \<rparr>,
                    \<lparr> arg_description = ''b'', arg_quantity = None, arg_unit_price = None,
                      arg_total_price = Some (Finite 3 0), arg_tax_rate = None \<rparr>],
       arg_totals = Some no_totals, arg_notes = None, arg_reason = None \<rparr>"

definition two_items_libs :: libs where
  "two_items_libs = sample_libs two_items_text two_items_data two_items_args sample_invalid"

definition two_items_out :: ReceiptData where
  "two_items_out = \<lparr> is_receipt = True, category = None, merchant = None, transaction = None,
            items = [\<lparr> description = ''a'', quantity = Finite 1 0, unit_price = None,
                       total_price = Some (Finite 5 0), tax_rate = None \<rparr>,
                     \<lparr> description = ''b'', quantity = Finite 1 0, unit_price = None,
                       total_price = Some (Finite 3 0), tax_rate = None \<rparr>],
            totals = Some \<lparr> subtotal = None, tax = None, total = Some (Finite 8 0),
                       total_calculated = Some (Finite 8 0), total_matches = Some True \<rparr>,
            notes = None, reason = None \<rparr>"

text \<open>A receipt without items whose totals block carries a computed total of 12.5.\<close>

definition no_items_text :: string where
  \<open>no_items_text = ''{"is_receipt": true, "items": [], "totals": {"total_calculated": 12.5}}''\<close>

definition no_items_data :: pyval where
  "no_items_data =
     PDict [(''is_receipt'', PBool True),
            (''items'', PList []),
            (''totals'', PDict [(''total_calculated'', PFloat (Finite 25 (-1)))])]"

definition no_items_args :: ReceiptData_args where
  "no_items_args =
     \<lparr> arg_is_receipt = True, arg_category = None, arg_merchant = None,
       arg_transaction = None, arg_items = [],
       arg_totals = Some (no_totals\<lparr> total_calculated := Some (Finite 25 (-1)) \<rparr>),
       arg_notes = None, arg_reason = None \<rparr>"

definition no_items_libs :: libs where
  "no_items_libs = sample_libs no_items_text no_items_data no_items_args sample_invalid"

text \<open>One item of 1.0 with a stated total of 1.01.\<close>

definition cent_text :: string where
  \<open>cent_text = ''{"is_receipt": true, "items": [{"description": "a", "total_price": 1.0}], "totals": {"total": 1.01}}''\<close>

definition cent_data :: pyval where
  "cent_data =
     PDict [(''is_receipt'', PBool True),
            (''items'', PList [PDict [(''description'', PStr ''a''),
                                      (''total_price'', PFloat (Finite 1 0))]]),
            (''totals'', PDict [(''total'', PFloat one_and_a_hundredth)])]"

definition cent_args :: ReceiptData_args where
  "cent_args =
     \<lparr> arg_is_receipt = True, arg_category = None, arg_merchant = None,
       arg_transaction = None,
       arg_items = [\<lparr> arg_description = ''a'', arg_quantity = None, arg_unit_price = None,
                      arg_total_price = Some (Finite 1 0), arg_tax_rate = None \<rparr>],
       arg_totals = Some (no_totals\<lparr> total := Some one_and_a_hundredth \<rparr>),
       arg_notes = None, arg_reason = None \<rparr>"

definition cent_libs :: libs where
  "cent_libs = sample_libs cent_text cent_data cent_args sample_invalid"

text \<open>An item whose quantity is the JSON literal \<open>NaN\<close>.\<close>

definition nan_text :: string where
  \<open>nan_text = ''{"is_receipt": true, "items": [{"description": "a", "quantity": NaN}]}''\<close>

definition nan_data :: pyval where
  "nan_data =
     PDict [(''is_receipt'', PBool True),
            (''items'', PList [PDict [(''description'', PStr ''a''),
                                      (''quantity'', PFloat NaN)]])]"

definition nan_args :: ReceiptData_args where
  "nan_args =
     \<lparr> arg_is_receipt = True, arg_category = None, arg_merchant = None,
       arg_transaction = None,
       arg_items = [\<lparr> arg_description = ''a'', arg_quantity = Some NaN, arg_unit_price = None,
                      arg_total_price = None, arg_tax_rate = None \<rparr>],
       arg_totals = None, arg_notes = None, arg_reason = None \<rparr>"

definition nan_libs :: libs where
  "nan_libs = sample_libs nan_text nan_data nan_args sample_invalid"

text \<open>A receipt of the category \<open>Misc\<close>, and one of the category \<open>Food & Drinks\<close>.\<close>

definition misc_text :: string where
  \<open>misc_text = ''{"is_receipt": true, "category": "Misc"}''\<close>

definition category_data :: "string \<Rightarrow> pyval" where
  "category_data c = PDict [(''is_receipt'', PBool True), (''category'', PStr c)]"

definition category_args :: "string \<Rightarrow> ReceiptData_args" where
  "category_args c =
     \<lparr> arg_is_receipt = True, arg_category = Some c, arg_merchant = None,
       arg_transaction = None, arg_items = [], arg_totals = None, arg_notes = None,
       arg_reason = None \<rparr>"

definition misc_libs :: libs where
  "misc_libs = sample_libs misc_text (category_data ''Misc'') (category_args ''Misc'')
                 sample_invalid"

definition food_text :: string where
  \<open>food_text = ''{"is_receipt": true, "category": "Food & Drinks"}''\<close>

definition food_libs :: libs where
  "food_libs = sample_libs food_text (category_data ''Food & Drinks'')
                 (category_args ''Food & Drinks'') sample_invalid"


section \<open>Sample response texts\<close>

text \<open>
  An interpreter with the default limit on the digits of an integer and room for 900
  nested containers.
\<close>

definition python_defaults :: interpreter where
  "python_defaults = \<lparr> int_max_str_digits = 4300, max_nesting = 900 \<rparr>"

definition say_pre :: string where \<open>say_pre = ''He said "{" then: ''\<close>

definition say_json :: string where \<open>say_json = ''{"a": "}{", "b": [1]}''\<close>

definition say_suf :: string where "say_suf = '' done''"

definition stray_text :: string where \<open>stray_text = ''see {x}: {"a": 1}''\<close>

definition stray_json :: string where \<open>stray_json = ''{"a": 1}''\<close>

definition scalar_fence :: string where "scalar_fence = ''```json 42```''"

definition plain_text :: string where "plain_text = ''no json here''"

definition fence_pre :: string where "fence_pre = ''Here is the receipt: ```json ''"

definition fence_suf :: string where "fence_suf = '' ``` Done.''"

text \<open>
  A bracket, 4301 digits, a letter and the closing bracket: no part of this text is a
  JSON object or array.
\<close>

definition long_digits :: string where
  "long_digits = CHR ''['' # replicate 4301 (CHR ''1'') @ ''x]''"


section \<open>Sample runs of the stats endpoint\<close>

text \<open>
  An endpoint that answers 404 to the first \<open>n\<close> requests and then 200 with a payload;
  with \<open>n\<close> at least the number of attempts it answers 404 throughout.
\<close>

definition stats_payload :: pyval where
  "stats_payload = PDict [(''latency'', PInt 120), (''generation_time'', PInt 900)]"

definition eventually_ready :: "nat \<Rightarrow> stats_env" where
  "eventually_ready n =
     \<lparr> http_get = (\<lambda>i. if i < n
                         then Inr (Response 404 (Inl decode_error))
                         else Inr (Response 200 (Inr (PDict [(''data'', stats_payload)])))),
       random_draw = (\<lambda>i. 1 / 2),
       max_retries = 4,
       delay = 1 / 2 \<rparr>"

text \<open>An endpoint that answers every request with status 200 and an empty JSON array.\<close>

definition array_body :: stats_env where
  "array_body =
     \<lparr> http_get = (\<lambda>i. Inr (Response 200 (Inr (PList [])))),
       random_draw = (\<lambda>i. 1 / 2),
       max_retries = 4,
       delay = 1 / 2 \<rparr>"

text \<open>A request that is cancelled while it waits for the second answer.\<close>

definition cancelled_request :: stats_env where
  "cancelled_request =
     \<lparr> http_get = (\<lambda>i. if i = 0 then Inr (Response 404 (Inl decode_error))
                         else Inl (BaseExn ''CancelledError'' [])),
       random_draw = (\<lambda>i. 1 / 2),
       max_retries = 4,
       delay = 1 / 2 \<rparr>"


section \<open>Sample collaborators\<close>

text \<open>
  The response parser of the repository behind its interface: \<open>re.search\<close> raises a
  \<open>TypeError\<close> on anything that is not a string.
\<close>

definition response_parser :: "pyval \<Rightarrow> exn + string" where
  "response_parser content =
     (case content of
        PStr s \<Rightarrow> extract_json_from_response python_defaults s
      | _ \<Rightarrow> Inl (Exn ''TypeError'' ''expected string or bytes-like object''))"

definition yes_text :: string where \<open>yes_text = ''{"is_receipt": true}''\<close>

definition yes_data :: pyval where "yes_data = PDict [(''is_receipt'', PBool True)]"

definition blank_text :: string where
  \<open>blank_text = ''{"is_receipt": false, "reason": "blank page"}''\<close>

definition blank_data :: pyval where
  "blank_data = PDict [(''is_receipt'', PBool False), (''reason'', PStr ''blank page'')]"

text \<open>
  Stand-ins for \<open>json.loads\<close> and pydantic on the three sample texts: the validation
  answers \<open>yes_text\<close> and \<open>blank_text\<close> and the receipt \<open>two_items_text\<close>.
\<close>

definition sample_library :: libs where
  "sample_library =
     \<lparr> json_loads = (\<lambda>s. if s = yes_text then Inr yes_data
                          else if s = blank_text then Inr blank_data
                          else if s = two_items_text then Inr two_items_data
                          else Inl decode_error),
       receipt_args = (\<lambda>d. if d = two_items_data then Inr two_items_args
                            else Inl (ValidationError ''ReceiptData''
                                        [(''items'', ''Input should be a valid list'')])),
       invalid_args = (\<lambda>d. if d = blank_data then Inr sample_invalid
                            else Inl (ValidationError ''InvalidReceipt''
                                        [(''reason'', ''Field required'')])),
       float_sum = sequential_sum \<rparr>"

text \<open>
  Collaborators that prepare every image, build fixed prompts and answer the API calls of
  a run with the responses of a script, in order.
\<close>

definition scripted :: "pyval list \<Rightarrow> collaborators" where
  "scripted script =
     \<lparr> process_image_in_memory = (\<lambda>path optimize. Inr (''image bytes'', ''image/jpeg'')),
       build_extraction_prompt =
         (\<lambda>include_validation. Inr (if include_validation then ''validate and extract''
                                     else ''extract'')),
       build_validation_only_prompt = Inr ''validate'',
       analyze_receipt =
         (\<lambda>n image_bytes mime_type prompt max_tokens.
            if n < length script then Inr (script ! n)
            else Inl (Exn ''RuntimeError'' ''no response left'')),
       extract_json = response_parser,
       library = sample_library,
       one_shot_max_tokens = 2000,
       validation_max_tokens = 100,
       extraction_max_tokens = 2000 \<rparr>"

text \<open>
  What \<open>analyze_receipt\<close> of the repository's client returns on success; its \<open>usage\<close>
  entry is \<open>None\<close> when the provider's response carries no usage.
\<close>

definition sample_metrics :: pyval where
  "sample_metrics =
     PDict [(''first_token_latency_ms'', PNone),
            (''generation_time_ms'', PNone),
            (''throughput'', PNone),
            (''cost'', PNone),
            (''finish_reason'', PStr ''stop'')]"

definition api_success :: "string \<Rightarrow> pyval \<Rightarrow> pyval" where
  "api_success content usage =
     PDict [(''success'', PBool True),
            (''content'', PStr content),
            (''model'', PStr ''meta-llama/llama-4-scout''),
            (''usage'', usage),
            (''metrics'', sample_metrics)]"

definition usage_of :: "int \<Rightarrow> int \<Rightarrow> pyval" where
  "usage_of prompt_tokens completion_tokens =
     PDict [(''prompt_tokens'', PInt prompt_tokens),
            (''completion_tokens'', PInt completion_tokens),
            (''total_tokens'', PInt (prompt_tokens + completion_tokens))]"





chapter \<open>Properties\<close>

section \<open>Properties of the Schema Validator\<close>

lemma sublist_prepend: "sublist k ys \<Longrightarrow> sublist k (ps @ ys)"
proof -
  assume "sublist k ys"
  then obtain a b where "ys = a @ k @ b" by (auto simp: sublist_def)
  then have "ps @ ys = (ps @ a) @ k @ b" by simp
  then show ?thesis unfolding sublist_def by blast
qed

lemma sublist_py_join:
  "k \<in> set xs \<Longrightarrow> sublist k (py_join sep xs)"
proof (induction sep xs rule: py_join.induct)
  case (1 sep)
  then show ?case by simp
next
  case (2 sep x)
  then show ?case by simp
next
  case (3 sep x y ys)
  show ?case
  proof (cases "k = x")
    case True
    then show ?thesis by simp
  next
    case False
    with 3 have "sublist k (py_join sep (y # ys))" by simp
    then have "sublist k ((x @ sep) @ py_join sep (y # ys))"
      by (rule sublist_prepend)
    then show ?thesis by simp
  qed
qed

lemma validate_category_accepts:
  "validate_category None = Inr None"
  "c \<in> set valid_categories \<Longrightarrow> validate_category (Some c) = Inr (Some c)"
  by (simp_all add: validate_category_def)

lemma validate_category_rejects:
  assumes "c \<notin> set valid_categories"
  shows "\<exists>msg. validate_category (Some c) = Inl (Exn ''ValueError'' msg)
           \<and> sublist c msg \<and> (\<forall>k \<in> set valid_categories. sublist k msg)"
proof -
  let ?tail = "''. '' @ ''Valid categories: '' @ py_join '', '' valid_categories"
  let ?msg = "''Invalid category: '' @ c @ ?tail"
  have eq: "validate_category (Some c) = Inl (Exn ''ValueError'' ?msg)"
    using assms by (simp add: validate_category_def)
  have names: "sublist c ?msg"
    by (rule sublist_appendI)
  have lists: "sublist k ?msg" if "k \<in> set valid_categories" for k
  proof -
    have "sublist k (py_join '', '' valid_categories)"
      using that by (rule sublist_py_join)
    then have "sublist k ((''Invalid category: '' @ c @ ''. '' @ ''Valid categories: '')
                           @ py_join '', '' valid_categories)"
      by (rule sublist_prepend)
    then show ?thesis by simp
  qed
  from eq names lists show ?thesis by blast
qed

lemma ReceiptData_init_accepts:
  assumes "validate_category (arg_category a) = Inr cat"
  shows "\<exists>r. ReceiptData_init a = Inr r \<and> category r = cat"
  using assms by (simp add: ReceiptData_init_def field_validator_def try_bind_def)

lemma ReceiptData_init_rejects:
  assumes "validate_category (arg_category a) = Inl (Exn ''ValueError'' msg)"
  shows "ReceiptData_init a = Inl (ValidationError ''ReceiptData'' [(''category'', msg)])"
  using assms by (simp add: ReceiptData_init_def field_validator_def try_bind_def)

lemma category_validate_totals: "category (validate_totals f r0 tol) = category r0"
  by (simp add: validate_totals_def split: option.splits)

lemma parse_receipt_json_init:
  assumes "json_loads L s = Inr (PDict d)" and "map_of d ''is_receipt'' = Some (PBool True)"
    and "receipt_args L (PDict d) = Inr a"
  shows "parse_receipt_json L s =
           (case ReceiptData_init a of
              Inl e \<Rightarrow> Inl e
            | Inr r0 \<Rightarrow> Inr (Receipt (validate_totals (float_sum L) r0 default_tolerance)))"
  using assms by (simp add: parse_receipt_json_def try_bind_def split: sum.splits)

text \<open>
  C7. The six expense categories are the whole enumeration. The validator
  \<open>validate_category\<close> returns a category that is null or one of the six and raises a
  \<open>ValueError\<close> for any other, with a message that names the value and lists the six
  categories. The constructor of \<open>ReceiptData\<close> runs it on the category it is given: it
  builds the record with that category in the first case and raises pydantic's
  \<open>ValidationError\<close> carrying that message in the second, and so does
  \<open>parse_receipt_json\<close> on a decoded object whose \<open>is_receipt\<close> is true.
\<close>

theorem validate_category_closed_enumeration:
  "set valid_categories =
     {''Food & Drinks'', ''Events & Entertainment'', ''Travel & Transport'',
      ''Housing & Utilities'', ''Shopping & Essentials'', ''On-Chain Life''}
   \<and> length valid_categories = 6
   \<and> validate_category None = Inr None
   \<and> (c \<in> set valid_categories \<longrightarrow> validate_category (Some c) = Inr (Some c))
   \<and> (c \<notin> set valid_categories \<longrightarrow>
        (\<exists>msg. validate_category (Some c) = Inl (Exn ''ValueError'' msg)
           \<and> sublist c msg
           \<and> (\<forall>k \<in> set valid_categories. sublist k msg)))
   \<and> (arg_category a = None \<or> arg_category a = Some c \<and> c \<in> set valid_categories \<longrightarrow>
        (\<exists>r. ReceiptData_init a = Inr r \<and> category r = arg_category a))
   \<and> (arg_category a = Some c \<and> c \<notin> set valid_categories \<longrightarrow>
        (\<exists>msg. ReceiptData_init a = Inl (ValidationError ''ReceiptData'' [(''category'', msg)])
           \<and> sublist c msg
           \<and> (\<forall>k \<in> set valid_categories. sublist k msg)))
   \<and> (json_loads L s = Inr (PDict d) \<and> map_of d ''is_receipt'' = Some (PBool True) \<and>
      receipt_args L (PDict d) = Inr a \<longrightarrow>
        (arg_category a = None \<or> arg_category a = Some c \<and> c \<in> set valid_categories \<longrightarrow>
           (\<exists>r. parse_receipt_json L s = Inr (Receipt r) \<and> category r = arg_category a)) \<and>
        (arg_category a = Some c \<and> c \<notin> set valid_categories \<longrightarrow>
           (\<exists>msg. parse_receipt_json L s =
                     Inl (ValidationError ''ReceiptData'' [(''category'', msg)])
              \<and> sublist c msg
              \<and> (\<forall>k \<in> set valid_categories. sublist k msg))))"
proof -
  have enum: "set valid_categories =
     {''Food & Drinks'', ''Events & Entertainment'', ''Travel & Transport'',
      ''Housing & Utilities'', ''Shopping & Essentials'', ''On-Chain Life''}"
    by (simp add: valid_categories_def)
  have len: "length valid_categories = 6"
    by (simp add: valid_categories_def)
  have none: "validate_category None = Inr None"
    by (rule validate_category_accepts(1))
  have ok: "c \<in> set valid_categories \<longrightarrow> validate_category (Some c) = Inr (Some c)"
    using validate_category_accepts(2) by blast
  have bad: "c \<notin> set valid_categories \<longrightarrow>
        (\<exists>msg. validate_category (Some c) = Inl (Exn ''ValueError'' msg)
           \<and> sublist c msg
           \<and> (\<forall>k \<in> set valid_categories. sublist k msg))"
    using validate_category_rejects by blast
  have init_ok: "\<exists>r. ReceiptData_init a = Inr r \<and> category r = arg_category a"
    if "arg_category a = None \<or> arg_category a = Some c \<and> c \<in> set valid_categories"
  proof -
    from that have "validate_category (arg_category a) = Inr (arg_category a)"
      using validate_category_accepts by auto
    then show ?thesis by (rule ReceiptData_init_accepts)
  qed
  have init_bad: "\<exists>msg. ReceiptData_init a =
                          Inl (ValidationError ''ReceiptData'' [(''category'', msg)])
           \<and> sublist c msg \<and> (\<forall>k \<in> set valid_categories. sublist k msg)"
    if "arg_category a = Some c \<and> c \<notin> set valid_categories"
  proof -
    from that validate_category_rejects [of c] obtain msg
      where m: "validate_category (arg_category a) = Inl (Exn ''ValueError'' msg)"
        "sublist c msg" "\<forall>k \<in> set valid_categories. sublist k msg"
      by auto
    from ReceiptData_init_rejects [OF m(1)] m(2,3) show ?thesis by blast
  qed
  have parse: "(arg_category a = None \<or> arg_category a = Some c \<and> c \<in> set valid_categories \<longrightarrow>
           (\<exists>r. parse_receipt_json L s = Inr (Receipt r) \<and> category r = arg_category a)) \<and>
        (arg_category a = Some c \<and> c \<notin> set valid_categories \<longrightarrow>
           (\<exists>msg. parse_receipt_json L s =
                     Inl (ValidationError ''ReceiptData'' [(''category'', msg)])
              \<and> sublist c msg
              \<and> (\<forall>k \<in> set valid_categories. sublist k msg)))"
    if p: "json_loads L s = Inr (PDict d) \<and> map_of d ''is_receipt'' = Some (PBool True) \<and>
      receipt_args L (PDict d) = Inr a"
  proof (intro conjI impI)
    note eq = parse_receipt_json_init [OF p [THEN conjunct1] p [THEN conjunct2, THEN conjunct1]
        p [THEN conjunct2, THEN conjunct2]]
    {
      assume "arg_category a = None \<or> arg_category a = Some c \<and> c \<in> set valid_categories"
      from init_ok [OF this] obtain r0
        where "ReceiptData_init a = Inr r0" "category r0 = arg_category a" by blast
      then show "\<exists>r. parse_receipt_json L s = Inr (Receipt r) \<and> category r = arg_category a"
        unfolding eq by (simp add: category_validate_totals)
    }
    {
      assume "arg_category a = Some c \<and> c \<notin> set valid_categories"
      from init_bad [OF this] obtain msg
        where "ReceiptData_init a = Inl (ValidationError ''ReceiptData'' [(''category'', msg)])"
          "sublist c msg" "\<forall>k \<in> set valid_categories. sublist k msg" by blast
      then show "\<exists>msg. parse_receipt_json L s =
                     Inl (ValidationError ''ReceiptData'' [(''category'', msg)])
              \<and> sublist c msg \<and> (\<forall>k \<in> set valid_categories. sublist k msg)"
        unfolding eq by simp
    }
  qed
  have i1: "arg_category a = None \<or> arg_category a = Some c \<and> c \<in> set valid_categories \<longrightarrow>
        (\<exists>r. ReceiptData_init a = Inr r \<and> category r = arg_category a)"
    by (rule impI) (rule init_ok)
  have i2: "arg_category a = Some c \<and> c \<notin> set valid_categories \<longrightarrow>
        (\<exists>msg. ReceiptData_init a = Inl (ValidationError ''ReceiptData'' [(''category'', msg)])
           \<and> sublist c msg
           \<and> (\<forall>k \<in> set valid_categories. sublist k msg))"
    by (rule impI) (rule init_bad)
  have i3: "json_loads L s = Inr (PDict d) \<and> map_of d ''is_receipt'' = Some (PBool True) \<and>
      receipt_args L (PDict d) = Inr a \<longrightarrow>
        (arg_category a = None \<or> arg_category a = Some c \<and> c \<in> set valid_categories \<longrightarrow>
           (\<exists>r. parse_receipt_json L s = Inr (Receipt r) \<and> category r = arg_category a)) \<and>
        (arg_category a = Some c \<and> c \<notin> set valid_categories \<longrightarrow>
           (\<exists>msg. parse_receipt_json L s =
                     Inl (ValidationError ''ReceiptData'' [(''category'', msg)])
              \<and> sublist c msg
              \<and> (\<forall>k \<in> set valid_categories. sublist k msg)))"
    by (rule impI) (rule parse)
  from enum len none ok bad i1 i2 i3 show ?thesis
    by (intro conjI)
qed

lemma category_samples:
  "''Misc'' \<notin> set valid_categories"
  "''Food & Drinks'' \<in> set valid_categories"
  "''On-Chain Life'' \<in> set valid_categories"
  by (simp_all add: valid_categories_def)

lemma category_libs:
  "json_loads misc_libs misc_text = Inr (PDict [(''is_receipt'', PBool True), (''category'', PStr ''Misc'')])"
  "receipt_args misc_libs (PDict [(''is_receipt'', PBool True), (''category'', PStr ''Misc'')]) =
     Inr (category_args ''Misc'')"
  "json_loads food_libs food_text =
     Inr (PDict [(''is_receipt'', PBool True), (''category'', PStr ''Food & Drinks'')])"
  "receipt_args food_libs
     (PDict [(''is_receipt'', PBool True), (''category'', PStr ''Food & Drinks'')]) =
     Inr (category_args ''Food & Drinks'')"
  "arg_category (category_args c) = Some c"
  by (simp_all add: misc_libs_def food_libs_def sample_libs_def category_data_def
      category_args_def)

theorem validate_category_closed_enumeration_witness:
  "(\<exists>r. parse_receipt_json food_libs food_text = Inr (Receipt r) \<and>
        category r = Some ''Food & Drinks'') \<and>
   (\<exists>msg. parse_receipt_json misc_libs misc_text =
             Inl (ValidationError ''ReceiptData'' [(''category'', msg)])
      \<and> sublist ''Misc'' msg
      \<and> sublist ''Food & Drinks'' msg \<and> sublist ''On-Chain Life'' msg)"
proof -
  have flag: "map_of [(''is_receipt'', PBool True), (''category'', PStr c)] ''is_receipt'' =
                Some (PBool True)" for c
    by simp
  note at_food = validate_category_closed_enumeration
    [of "''Food & Drinks''" "category_args ''Food & Drinks''" food_libs food_text
        "[(''is_receipt'', PBool True), (''category'', PStr ''Food & Drinks'')]"]
  note at_misc = validate_category_closed_enumeration
    [of "''Misc''" "category_args ''Misc''" misc_libs misc_text
        "[(''is_receipt'', PBool True), (''category'', PStr ''Misc'')]"]
  have pf: "json_loads food_libs food_text =
              Inr (PDict [(''is_receipt'', PBool True), (''category'', PStr ''Food & Drinks'')]) \<and>
            map_of [(''is_receipt'', PBool True), (''category'', PStr ''Food & Drinks'')]
              ''is_receipt'' = Some (PBool True) \<and>
            receipt_args food_libs
              (PDict [(''is_receipt'', PBool True), (''category'', PStr ''Food & Drinks'')]) =
              Inr (category_args ''Food & Drinks'')"
    using category_libs(3) flag category_libs(4) by (intro conjI)
  have pm: "json_loads misc_libs misc_text =
              Inr (PDict [(''is_receipt'', PBool True), (''category'', PStr ''Misc'')]) \<and>
            map_of [(''is_receipt'', PBool True), (''category'', PStr ''Misc'')]
              ''is_receipt'' = Some (PBool True) \<and>
            receipt_args misc_libs
              (PDict [(''is_receipt'', PBool True), (''category'', PStr ''Misc'')]) =
              Inr (category_args ''Misc'')"
    using category_libs(1) flag category_libs(2) by (intro conjI)
  have cf: "arg_category (category_args ''Food & Drinks'') = None \<or>
            arg_category (category_args ''Food & Drinks'') = Some ''Food & Drinks'' \<and>
            ''Food & Drinks'' \<in> set valid_categories"
    using category_libs(5) category_samples(2) by (intro disjI2 conjI)
  have cm: "arg_category (category_args ''Misc'') = Some ''Misc'' \<and>
            ''Misc'' \<notin> set valid_categories"
    using category_libs(5) category_samples(1) by (intro conjI)
  note food_parse = at_food [THEN conjunct2, THEN conjunct2, THEN conjunct2, THEN conjunct2,
      THEN conjunct2, THEN conjunct2, THEN conjunct2, THEN mp, OF pf, THEN conjunct1,
      THEN mp, OF cf]
  note misc_parse = at_misc [THEN conjunct2, THEN conjunct2, THEN conjunct2, THEN conjunct2,
      THEN conjunct2, THEN conjunct2, THEN conjunct2, THEN mp, OF pm, THEN conjunct2,
      THEN mp, OF cm]
  from food_parse obtain r where r: "parse_receipt_json food_libs food_text = Inr (Receipt r) \<and>
      category r = arg_category (category_args ''Food & Drinks'')"
    by (rule exE)
  have r1: "parse_receipt_json food_libs food_text = Inr (Receipt r)"
    by (rule r [THEN conjunct1])
  have r2: "category r = Some ''Food & Drinks''"
    using r [THEN conjunct2] category_libs(5) by (rule trans)
  have first: "\<exists>r. parse_receipt_json food_libs food_text = Inr (Receipt r) \<and>
        category r = Some ''Food & Drinks''"
    using r1 r2 by (intro exI [of _ r] conjI)
  from misc_parse obtain msg where m: "parse_receipt_json misc_libs misc_text =
             Inl (ValidationError ''ReceiptData'' [(''category'', msg)])
      \<and> sublist ''Misc'' msg \<and> (\<forall>k \<in> set valid_categories. sublist k msg)"
    by (rule exE)
  have m1: "parse_receipt_json misc_libs misc_text =
             Inl (ValidationError ''ReceiptData'' [(''category'', msg)])"
    by (rule m [THEN conjunct1])
  have m2: "sublist ''Misc'' msg"
    by (rule m [THEN conjunct2, THEN conjunct1])
  have m3: "sublist ''Food & Drinks'' msg"
    by (rule m [THEN conjunct2, THEN conjunct2, THEN bspec, OF category_samples(2)])
  have m4: "sublist ''On-Chain Life'' msg"
    by (rule m [THEN conjunct2, THEN conjunct2, THEN bspec, OF category_samples(3)])
  have second: "\<exists>msg. parse_receipt_json misc_libs misc_text =
             Inl (ValidationError ''ReceiptData'' [(''category'', msg)])
      \<and> sublist ''Misc'' msg
      \<and> sublist ''Food & Drinks'' msg \<and> sublist ''On-Chain Life'' msg"
    using m1 m2 m3 m4 by (intro exI [of _ msg] conjI)
  from first second show ?thesis by (intro conjI)
qed
lemma parse_receipt_json_Receipt:
  assumes "json_loads L s = Inr data" and "receipt_args L data = Inr args"
    and "parse_receipt_json L s = Inr (Receipt r)"
  shows "\<exists>r0. ReceiptData_init args = Inr r0 \<and>
           r = validate_totals (float_sum L) r0 default_tolerance"
  using assms
  by (auto simp: parse_receipt_json_def try_bind_def split: sum.splits if_splits)

lemma ReceiptData_init_Inr:
  assumes "ReceiptData_init args = Inr r0"
  shows "items r0 = map ReceiptItem_init (arg_items args)" and "totals r0 = arg_totals args"
  using assms
  by (auto simp: ReceiptData_init_def try_bind_def split: sum.splits)

lemma items_validate_totals: "items (validate_totals f r0 tol) = items r0"
  by (simp add: validate_totals_def split: option.splits)

lemma flt_zero: "flt (Finite m e) float_zero \<longleftrightarrow> m < 0"
  by (simp add: float_zero_def scaled_def mult_less_0_iff)

lemma fle_zero: "fle float_zero (Finite m e) \<longleftrightarrow> 0 \<le> m"
  by (simp add: float_zero_def scaled_def zero_le_mult_iff)

lemma sign_flip:
  "\<not> flt (if flt x float_zero then fabs x else x) float_zero"
  "(if flt x float_zero then fabs x else x) = NaN \<longleftrightarrow> x = NaN"
  "x \<noteq> NaN \<Longrightarrow> fle float_zero (if flt x float_zero then fabs x else x)"
  by (cases x; simp add: flt_zero fle_zero; simp add: float_zero_def)+

lemma must_be_positive_flip:
  "must_be_positive v = map_option (\<lambda>x. if flt x float_zero then fabs x else x) v"
  by (cases v) (simp_all add: must_be_positive_def)

lemma ReceiptItem_init_fields:
  "description (ReceiptItem_init a) = arg_description a"
  "quantity (ReceiptItem_init a) =
     (case arg_quantity a of
        None \<Rightarrow> Finite 1 0
      | Some q \<Rightarrow> if flt q float_zero then fabs q else q)"
  "unit_price (ReceiptItem_init a) =
     map_option (\<lambda>x. if flt x float_zero then fabs x else x) (arg_unit_price a)"
  "total_price (ReceiptItem_init a) =
     map_option (\<lambda>x. if flt x float_zero then fabs x else x) (arg_total_price a)"
  "tax_rate (ReceiptItem_init a) = arg_tax_rate a"
  by (simp_all add: ReceiptItem_init_def must_be_positive_flip split: option.splits)

lemma quantity_sign:
  "\<not> flt (quantity (ReceiptItem_init a)) float_zero"
  "quantity (ReceiptItem_init a) = NaN \<longleftrightarrow> arg_quantity a = Some NaN"
  "quantity (ReceiptItem_init a) = NaN \<or> fle float_zero (quantity (ReceiptItem_init a))"
proof -
  show "\<not> flt (quantity (ReceiptItem_init a)) float_zero"
    by (cases "arg_quantity a") (simp_all add: ReceiptItem_init_fields sign_flip flt_zero)
  show "quantity (ReceiptItem_init a) = NaN \<longleftrightarrow> arg_quantity a = Some NaN"
    by (cases "arg_quantity a") (simp_all add: ReceiptItem_init_fields sign_flip)
  show "quantity (ReceiptItem_init a) = NaN \<or> fle float_zero (quantity (ReceiptItem_init a))"
  proof (cases "arg_quantity a")
    case None
    then show ?thesis by (simp add: ReceiptItem_init_fields fle_zero)
  next
    case (Some q)
    then show ?thesis
      using sign_flip(2,3) [of q] by (cases "q = NaN") (simp_all add: ReceiptItem_init_fields)
  qed
qed

lemma price_sign:
  assumes "map_option (\<lambda>x. if flt x float_zero then fabs x else x) v = Some y"
  shows "\<not> flt y float_zero" and "y = NaN \<longleftrightarrow> v = Some NaN"
    and "y = NaN \<or> fle float_zero y"
proof -
  from assms obtain x where v: "v = Some x"
    and y: "y = (if flt x float_zero then fabs x else x)" by (cases v) auto
  show "\<not> flt y float_zero" unfolding y by (rule sign_flip(1))
  show "y = NaN \<longleftrightarrow> v = Some NaN" unfolding y v by (simp add: sign_flip(2))
  show "y = NaN \<or> fle float_zero y"
    unfolding y using sign_flip(2,3) [of x] by (cases "x = NaN") simp_all
qed

text \<open>
  C4 (amended). In every receipt the validator accepts, each line item's quantity, unit
  price and total price are the parsed inputs with every negative value (minus infinity
  included) replaced by its absolute value. None of the three is negative afterwards,
  and each is at least zero unless the input was \<open>NaN\<close>, which is not below zero and so
  passes unchanged. Null stays null, an absent quantity is the default 1.0, and the tax
  rate is copied as it is.
\<close>

theorem line_item_amounts_non_negative:
  assumes "json_loads L s = Inr data" and "receipt_args L data = Inr args"
    and "parse_receipt_json L s = Inr (Receipt r)"
  shows "length (items r) = length (arg_items args) \<and>
    (\<forall>i < length (items r).
       quantity (items r ! i) =
         (case arg_quantity (arg_items args ! i) of
            None \<Rightarrow> Finite 1 0
          | Some q \<Rightarrow> if flt q float_zero then fabs q else q) \<and>
       unit_price (items r ! i) =
         map_option (\<lambda>x. if flt x float_zero then fabs x else x)
           (arg_unit_price (arg_items args ! i)) \<and>
       total_price (items r ! i) =
         map_option (\<lambda>x. if flt x float_zero then fabs x else x)
           (arg_total_price (arg_items args ! i)) \<and>
       tax_rate (items r ! i) = arg_tax_rate (arg_items args ! i) \<and>
       \<not> flt (quantity (items r ! i)) float_zero \<and>
       (quantity (items r ! i) = NaN \<longleftrightarrow> arg_quantity (arg_items args ! i) = Some NaN) \<and>
       (quantity (items r ! i) = NaN \<or> fle float_zero (quantity (items r ! i))) \<and>
       (\<forall>x. unit_price (items r ! i) = Some x \<longrightarrow>
            \<not> flt x float_zero \<and>
            (x = NaN \<longleftrightarrow> arg_unit_price (arg_items args ! i) = Some NaN) \<and>
            (x = NaN \<or> fle float_zero x)) \<and>
       (\<forall>x. total_price (items r ! i) = Some x \<longrightarrow>
            \<not> flt x float_zero \<and>
            (x = NaN \<longleftrightarrow> arg_total_price (arg_items args ! i) = Some NaN) \<and>
            (x = NaN \<or> fle float_zero x)))"
proof -
  from assms obtain r0 where r0: "ReceiptData_init args = Inr r0"
    and r: "r = validate_totals (float_sum L) r0 default_tolerance"
    using parse_receipt_json_Receipt by blast
  have its: "items r = map ReceiptItem_init (arg_items args)"
    using r r0 by (simp add: items_validate_totals ReceiptData_init_Inr)
  have len: "length (items r) = length (arg_items args)"
    unfolding its by simp
  have each: "quantity (items r ! i) =
         (case arg_quantity (arg_items args ! i) of
            None \<Rightarrow> Finite 1 0
          | Some q \<Rightarrow> if flt q float_zero then fabs q else q) \<and>
       unit_price (items r ! i) =
         map_option (\<lambda>x. if flt x float_zero then fabs x else x)
           (arg_unit_price (arg_items args ! i)) \<and>
       total_price (items r ! i) =
         map_option (\<lambda>x. if flt x float_zero then fabs x else x)
           (arg_total_price (arg_items args ! i)) \<and>
       tax_rate (items r ! i) = arg_tax_rate (arg_items args ! i) \<and>
       \<not> flt (quantity (items r ! i)) float_zero \<and>
       (quantity (items r ! i) = NaN \<longleftrightarrow> arg_quantity (arg_items args ! i) = Some NaN) \<and>
       (quantity (items r ! i) = NaN \<or> fle float_zero (quantity (items r ! i))) \<and>
       (\<forall>x. unit_price (items r ! i) = Some x \<longrightarrow>
            \<not> flt x float_zero \<and>
            (x = NaN \<longleftrightarrow> arg_unit_price (arg_items args ! i) = Some NaN) \<and>
            (x = NaN \<or> fle float_zero x)) \<and>
       (\<forall>x. total_price (items r ! i) = Some x \<longrightarrow>
            \<not> flt x float_zero \<and>
            (x = NaN \<longleftrightarrow> arg_total_price (arg_items args ! i) = Some NaN) \<and>
            (x = NaN \<or> fle float_zero x))"
    if i: "i < length (items r)" for i
  proof -
    let ?a = "arg_items args ! i"
    have item: "items r ! i = ReceiptItem_init ?a"
      using i unfolding its by simp
    have up: "\<not> flt x float_zero \<and> (x = NaN \<longleftrightarrow> arg_unit_price ?a = Some NaN) \<and>
              (x = NaN \<or> fle float_zero x)"
      if h: "unit_price (ReceiptItem_init ?a) = Some x" for x
    proof -
      from h have "map_option (\<lambda>x. if flt x float_zero then fabs x else x)
                     (arg_unit_price ?a) = Some x"
        by (simp only: ReceiptItem_init_fields(3))
      from price_sign [OF this] show ?thesis by (intro conjI)
    qed
    have tp: "\<not> flt x float_zero \<and> (x = NaN \<longleftrightarrow> arg_total_price ?a = Some NaN) \<and>
              (x = NaN \<or> fle float_zero x)"
      if h: "total_price (ReceiptItem_init ?a) = Some x" for x
    proof -
      from h have "map_option (\<lambda>x. if flt x float_zero then fabs x else x)
                     (arg_total_price ?a) = Some x"
        by (simp only: ReceiptItem_init_fields(4))
      from price_sign [OF this] show ?thesis by (intro conjI)
    qed
    have U: "\<forall>x. unit_price (ReceiptItem_init ?a) = Some x \<longrightarrow>
            \<not> flt x float_zero \<and>
            (x = NaN \<longleftrightarrow> arg_unit_price ?a = Some NaN) \<and>
            (x = NaN \<or> fle float_zero x)"
      by (intro allI impI) (rule up)
    have T: "\<forall>x. total_price (ReceiptItem_init ?a) = Some x \<longrightarrow>
            \<not> flt x float_zero \<and>
            (x = NaN \<longleftrightarrow> arg_total_price ?a = Some NaN) \<and>
            (x = NaN \<or> fle float_zero x)"
      by (intro allI impI) (rule tp)
    from ReceiptItem_init_fields(2-5) [of ?a] quantity_sign [of ?a] U T
    show ?thesis
      unfolding item by (intro conjI)
  qed
  from len each show ?thesis by blast
qed

lemma refund_parse:
  "json_loads refund_libs refund_text = Inr refund_data"
  "receipt_args refund_libs refund_data = Inr refund_args"
  by (simp_all add: refund_libs_def sample_libs_def)

lemma refund_result:
  "parse_receipt_json refund_libs refund_text =
     Inr (Receipt \<lparr> is_receipt = True, category = None, merchant = None, transaction = None,
            items = [\<lparr> description = ''Refund'', quantity = Finite 2 0,
                       unit_price = Some (Finite 3 (-1)),
                       total_price = Some (Finite 3 0), tax_rate = Some minus_a_fifth \<rparr>],
            totals = None, notes = None, reason = None \<rparr>)"
  by code_simp

theorem line_item_amounts_non_negative_witness:
  "json_loads refund_libs refund_text = Inr refund_data \<and>
   receipt_args refund_libs refund_data = Inr refund_args \<and>
   (\<exists>r. parse_receipt_json refund_libs refund_text = Inr (Receipt r) \<and>
        quantity (items r ! 0) = Finite 2 0 \<and> unit_price (items r ! 0) = Some (Finite 3 (-1)) \<and>
        total_price (items r ! 0) = Some (Finite 3 0) \<and>
        tax_rate (items r ! 0) = Some minus_a_fifth)"
proof -
  let ?r = "\<lparr> is_receipt = True, category = None, merchant = None, transaction = None,
            items = [\<lparr> description = ''Refund'', quantity = Finite 2 0,
                       unit_price = Some (Finite 3 (-1)),
                       total_price = Some (Finite 3 0), tax_rate = Some minus_a_fifth \<rparr>],
            totals = None, notes = None, reason = None \<rparr>"
  have p: "parse_receipt_json refund_libs refund_text = Inr (Receipt ?r)"
    by (rule refund_result)
  from line_item_amounts_non_negative [OF refund_parse(1) refund_parse(2) p]
  have "quantity (items ?r ! 0) =
         (case arg_quantity (arg_items refund_args ! 0) of
            None \<Rightarrow> Finite 1 0
          | Some q \<Rightarrow> if flt q float_zero then fabs q else q) \<and>
       unit_price (items ?r ! 0) =
         map_option (\<lambda>x. if flt x float_zero then fabs x else x)
           (arg_unit_price (arg_items refund_args ! 0)) \<and>
       total_price (items ?r ! 0) =
         map_option (\<lambda>x. if flt x float_zero then fabs x else x)
           (arg_total_price (arg_items refund_args ! 0)) \<and>
       tax_rate (items ?r ! 0) = arg_tax_rate (arg_items refund_args ! 0)"
    by simp
  then have "quantity (items ?r ! 0) = Finite 2 0 \<and>
        unit_price (items ?r ! 0) = Some (Finite 3 (-1)) \<and>
        total_price (items ?r ! 0) = Some (Finite 3 0) \<and>
        tax_rate (items ?r ! 0) = Some minus_a_fifth"
    by (simp add: refund_args_def flt_zero)
  with p refund_parse show ?thesis by blast
qed

text \<open>
  An item whose quantity is \<open>NaN\<close> (the JSON literal \<open>NaN\<close>, which \<open>json.loads\<close> and
  pydantic's float accept) is accepted with that quantity: \<open>NaN < 0\<close> is false, so the
  value is returned as it is, and it is not non-negative.
\<close>

theorem line_item_amounts_counterexample:
  "parse_receipt_json nan_libs nan_text =
     Inr (Receipt \<lparr> is_receipt = True, category = None, merchant = None, transaction = None,
            items = [\<lparr> description = ''a'', quantity = NaN, unit_price = None,
                       total_price = None, tax_rate = None \<rparr>],
            totals = None, notes = None, reason = None \<rparr>)
   \<and> \<not> fle float_zero NaN"
  by code_simp

lemma calculate_from_items_fields:
  "total_calculated (calculate_from_items f t its tol) =
     Some (f (List.map_filter total_price its))"
  "total (calculate_from_items f t its tol) =
     (case total t of Some x \<Rightarrow> Some x
      | None \<Rightarrow> Some (f (List.map_filter total_price its)))"
  "total_matches (calculate_from_items f t its tol) =
     (case total t of
        Some x \<Rightarrow> Some (fle (fabs (fsub x (f (List.map_filter total_price its)))) tol)
      | None \<Rightarrow> Some True)"
  "subtotal (calculate_from_items f t its tol) = subtotal t"
  "tax (calculate_from_items f t its tol) = tax t"
  by (auto simp: calculate_from_items_def Let_def split: option.splits)

text \<open>
  C3 (amended). When the parsed receipt has a totals block and at least one item,
  \<open>total_calculated\<close> is what the built-in \<open>sum\<close> returns for the item \<open>total_price\<close>
  values that are not null, a float. A stated total is kept, and \<open>total_matches\<close> is
  the outcome of the comparison \<open>abs(total - total_calculated) <= 0.01\<close> in float
  arithmetic: the difference is rounded and 0.01 is the float \<open>default_tolerance\<close>.
  Without a stated total, \<open>total\<close> becomes that sum and \<open>total_matches\<close> is true.
  Without a totals block, or without items, the totals are left as they were parsed.
\<close>

theorem totals_reconciliation:
  assumes "json_loads L s = Inr data" and "receipt_args L data = Inr args"
    and "parse_receipt_json L s = Inr (Receipt r)"
  shows "(case arg_totals args of
            None \<Rightarrow> totals r = None
          | Some t0 \<Rightarrow>
              if arg_items args = [] then totals r = Some t0
              else (\<exists>t. totals r = Some t \<and>
                     total_calculated t =
                       Some (float_sum L (List.map_filter total_price (items r))) \<and>
                     subtotal t = subtotal t0 \<and> tax t = tax t0 \<and>
                     (case total t0 of
                        Some x \<Rightarrow>
                          total t = Some x \<and>
                          total_matches t =
                            Some (fle (fabs (fsub x
                                    (float_sum L (List.map_filter total_price (items r)))))
                                  default_tolerance)
                      | None \<Rightarrow>
                          total t = total_calculated t \<and> total_matches t = Some True)))"
proof -
  from assms obtain r0 where r0: "ReceiptData_init args = Inr r0"
    and r: "r = validate_totals (float_sum L) r0 default_tolerance"
    using parse_receipt_json_Receipt by blast
  have its: "items r0 = map ReceiptItem_init (arg_items args)"
    and tot: "totals r0 = arg_totals args"
    using r0 by (simp_all add: ReceiptData_init_Inr)
  show ?thesis
  proof (cases "arg_totals args")
    case None
    then show ?thesis using r tot by (simp add: validate_totals_def)
  next
    case (Some t0)
    show ?thesis
    proof (cases "arg_items args = []")
      case True
      then show ?thesis using Some r tot its by (simp add: validate_totals_def)
    next
      case False
      then have ne: "items r0 \<noteq> []" using its by simp
      have tr: "totals r =
                  Some (calculate_from_items (float_sum L) t0 (items r0) default_tolerance)"
        using r tot Some ne by (simp add: validate_totals_def)
      have ir: "items r = items r0"
        using r by (simp add: items_validate_totals)
      show ?thesis
        using Some False tr ir
        by (simp add: calculate_from_items_fields split: option.splits)
    qed
  qed
qed

lemma two_items_parse:
  "json_loads two_items_libs two_items_text = Inr two_items_data"
  "receipt_args two_items_libs two_items_data = Inr two_items_args"
  "float_sum two_items_libs = sequential_sum"
  by (simp_all add: two_items_libs_def sample_libs_def)

lemma two_items_result:
  "parse_receipt_json two_items_libs two_items_text = Inr (Receipt two_items_out)"
  by code_simp

theorem totals_reconciliation_witness:
  "json_loads two_items_libs two_items_text = Inr two_items_data \<and>
   receipt_args two_items_libs two_items_data = Inr two_items_args \<and>
   (\<exists>r t. parse_receipt_json two_items_libs two_items_text = Inr (Receipt r) \<and>
          totals r = Some t \<and> total_calculated t = Some (Finite 8 0) \<and>
          total t = Some (Finite 8 0) \<and> total_matches t = Some True)"
proof -
  have p: "parse_receipt_json two_items_libs two_items_text = Inr (Receipt two_items_out)"
    by (rule two_items_result)
  have a: "arg_totals two_items_args = Some no_totals" "arg_items two_items_args \<noteq> []"
    by (simp_all add: two_items_args_def)
  have n: "total no_totals = None" by (simp add: no_totals_def)
  from totals_reconciliation [OF two_items_parse(1) two_items_parse(2) p]
  obtain t where t: "totals two_items_out = Some t"
    and tc: "total_calculated t =
               Some (float_sum two_items_libs
                       (List.map_filter total_price (items two_items_out)))"
    and tt: "total t = total_calculated t" and tm: "total_matches t = Some True"
    using a n by auto
  have "float_sum two_items_libs (List.map_filter total_price (items two_items_out)) =
          Finite 8 0"
    by code_simp
  with tc tt have "total_calculated t = Some (Finite 8 0)" "total t = Some (Finite 8 0)"
    by simp_all
  with p t tm two_items_parse(1,2) show ?thesis by blast
qed

lemma nearest_to_decimal:
  "\<bar>float_value 4548635623644201 (-52) - 101 / 100\<bar> \<le> 1 / 2 ^ 53"
  "\<bar>float_value 5764607523034235 (-59) - 1 / 100\<bar> \<le> 1 / 2 ^ 60"
  by (simp_all add: float_value_def)

text \<open>
  A receipt without items keeps the totals block it was given: its \<open>total_calculated\<close>
  of 12.5 is not the sum over the (empty) item list, \<open>total\<close> stays null and
  \<open>total_matches\<close> stays null. And a receipt with one item of 1.0 and a stated total of
  1.01 does not match: the float nearest to 1.01 lies above 1.01, and its distance to
  1.0 is above the float nearest to 0.01.
\<close>

theorem totals_reconciliation_counterexample:
  "parse_receipt_json no_items_libs no_items_text =
     Inr (Receipt \<lparr> is_receipt = True, category = None, merchant = None, transaction = None,
            items = [],
            totals = Some \<lparr> subtotal = None, tax = None, total = None,
                       total_calculated = Some (Finite 25 (-1)), total_matches = None \<rparr>,
            notes = None, reason = None \<rparr>)
   \<and> parse_receipt_json cent_libs cent_text =
     Inr (Receipt \<lparr> is_receipt = True, category = None, merchant = None, transaction = None,
            items = [\<lparr> description = ''a'', quantity = Finite 1 0, unit_price = None,
                       total_price = Some (Finite 1 0), tax_rate = None \<rparr>],
            totals = Some \<lparr> subtotal = None, tax = None,
                       total = Some (Finite 4548635623644201 (-52)),
                       total_calculated = Some (Finite 1 0), total_matches = Some False \<rparr>,
            notes = None, reason = None \<rparr>)
   \<and> \<bar>float_value 4548635623644201 (-52) - 101 / 100\<bar> \<le> 1 / 2 ^ 53
   \<and> default_tolerance = Finite 5764607523034235 (-59)
   \<and> \<bar>float_value 5764607523034235 (-59) - 1 / 100\<bar> \<le> 1 / 2 ^ 60"
proof -
  have a: "parse_receipt_json no_items_libs no_items_text =
     Inr (Receipt \<lparr> is_receipt = True, category = None, merchant = None, transaction = None,
            items = [],
            totals = Some \<lparr> subtotal = None, tax = None, total = None,
                       total_calculated = Some (Finite 25 (-1)), total_matches = None \<rparr>,
            notes = None, reason = None \<rparr>)"
    by code_simp
  have b: "parse_receipt_json cent_libs cent_text =
     Inr (Receipt \<lparr> is_receipt = True, category = None, merchant = None, transaction = None,
            items = [\<lparr> description = ''a'', quantity = Finite 1 0, unit_price = None,
                       total_price = Some (Finite 1 0), tax_rate = None \<rparr>],
            totals = Some \<lparr> subtotal = None, tax = None,
                       total = Some (Finite 4548635623644201 (-52)),
                       total_calculated = Some (Finite 1 0), total_matches = Some False \<rparr>,
            notes = None, reason = None \<rparr>)"
    by code_simp
  have c: "default_tolerance = Finite 5764607523034235 (-59)"
    by (rule default_tolerance_def)
  from a b nearest_to_decimal(1) c nearest_to_decimal(2) show ?thesis
    by (intro conjI)
qed


section \<open>Properties of the Span Extractor\<close>

subsection \<open>The state machine follows the decoder\<close>

lemma ground_chars [simp]:
  "\<not> json_ws (CHR 0x22)" "\<not> json_ws (CHR 0x5C)" "\<not> json_ws (CHR ''{'')" "\<not> json_ws (CHR ''}'')"
  "\<not> json_ws (CHR ''['')" "\<not> json_ws (CHR '']'')"
  "\<not> is_digit (CHR 0x22)" "\<not> is_digit (CHR 0x5C)" "\<not> is_digit (CHR ''{'')" "\<not> is_digit (CHR ''}'')"
  "\<not> is_digit (CHR ''['')" "\<not> is_digit (CHR '']'')"
  "\<not> is_digit19 (CHR 0x22)" "\<not> is_digit19 (CHR 0x5C)" "\<not> is_digit19 (CHR ''{'')"
  "\<not> is_digit19 (CHR ''}'')" "\<not> is_digit19 (CHR ''['')" "\<not> is_digit19 (CHR '']'')"
  "\<not> is_hex (CHR 0x22)" "\<not> is_hex (CHR 0x5C)"
  "\<not> is_control (CHR 0x22)" "\<not> is_control (CHR 0x5C)"
  by (simp_all add: json_ws_def is_digit_def is_digit19_def is_hex_def is_control_def)

lemma jstep_in_string:
  assumes "jstep (m, stk) c = Some (m', stk')" and "in_str m"
  shows "stk' = stk" and "lit_ok m'"
    and "is_esc m \<Longrightarrow> in_str m' \<and> \<not> is_esc m'"
    and "\<not> is_esc m \<Longrightarrow> c = CHR 0x5C \<Longrightarrow> in_str m' \<and> is_esc m'"
    and "\<not> is_esc m \<Longrightarrow> c \<noteq> CHR 0x5C \<Longrightarrow> c = CHR 0x22 \<Longrightarrow> \<not> in_str m'"
    and "\<not> is_esc m \<Longrightarrow> c \<noteq> CHR 0x5C \<Longrightarrow> c \<noteq> CHR 0x22 \<Longrightarrow> in_str m' \<and> \<not> is_esc m'"
  using assms
  by (cases m; clarsimp split: if_splits)+

lemma start_value_effect:
  assumes "start_value stk c = Some (m', stk')"
  shows "c \<noteq> CHR 0x5C" and "lit_ok m'"
    and "c = CHR 0x22 \<Longrightarrow> stk' = stk \<and> in_str m' \<and> \<not> is_esc m'"
    and "c \<noteq> CHR 0x22 \<Longrightarrow> \<not> in_str m'"
    and "c = CHR ''{'' \<Longrightarrow> stk' = Obj # stk"
    and "c = CHR ''['' \<Longrightarrow> stk' = Arr # stk"
    and "c \<noteq> CHR ''}''" and "c \<noteq> CHR '']''"
    and "c \<noteq> CHR ''{'' \<Longrightarrow> c \<noteq> CHR ''['' \<Longrightarrow> stk' = stk"
  using assms unfolding start_value_def
  by (clarsimp simp: plain_def split: if_splits)+

lemma after_value_effect:
  assumes "after_value stk c = Some (m', stk')"
  shows "c \<noteq> CHR 0x5C" and "lit_ok m'" and "c \<noteq> CHR 0x22" and "\<not> in_str m'"
    and "c \<noteq> CHR ''{''" and "c \<noteq> CHR ''[''"
    and "c = CHR ''}'' \<Longrightarrow> stk = Obj # stk' \<and> m' = MAfter"
    and "c = CHR '']'' \<Longrightarrow> stk = Arr # stk' \<and> m' = MAfter"
    and "c \<noteq> CHR ''}'' \<Longrightarrow> c \<noteq> CHR '']'' \<Longrightarrow> stk' = stk"
  using assms unfolding after_value_def
  by (clarsimp split: if_splits list.splits container.splits)+

lemma special_neq [simp]:
  "json_ws c \<Longrightarrow> c \<noteq> CHR 0x22" "json_ws c \<Longrightarrow> c \<noteq> CHR 0x5C"
  "json_ws c \<Longrightarrow> c \<noteq> CHR ''{''" "json_ws c \<Longrightarrow> c \<noteq> CHR ''}''"
  "json_ws c \<Longrightarrow> c \<noteq> CHR ''[''" "json_ws c \<Longrightarrow> c \<noteq> CHR '']''"
  "is_digit c \<Longrightarrow> c \<noteq> CHR 0x22" "is_digit c \<Longrightarrow> c \<noteq> CHR 0x5C"
  "is_digit c \<Longrightarrow> c \<noteq> CHR ''{''" "is_digit c \<Longrightarrow> c \<noteq> CHR ''}''"
  "is_digit c \<Longrightarrow> c \<noteq> CHR ''[''" "is_digit c \<Longrightarrow> c \<noteq> CHR '']''"
  "is_digit19 c \<Longrightarrow> c \<noteq> CHR 0x22" "is_digit19 c \<Longrightarrow> c \<noteq> CHR 0x5C"
  "is_digit19 c \<Longrightarrow> c \<noteq> CHR ''{''" "is_digit19 c \<Longrightarrow> c \<noteq> CHR ''}''"
  "is_digit19 c \<Longrightarrow> c \<noteq> CHR ''[''" "is_digit19 c \<Longrightarrow> c \<noteq> CHR '']''"
  by clarsimp+

lemma plain_chars:
  "json_ws c \<Longrightarrow> plain c" "is_digit c \<Longrightarrow> plain c" "is_digit19 c \<Longrightarrow> plain c"
  by (simp_all add: plain_def)

lemma plain_exp:
  "c = CHR ''e'' \<or> c = CHR ''E'' \<Longrightarrow> plain c"
  "c = CHR ''+'' \<or> c = CHR ''-'' \<Longrightarrow> plain c"
  by (elim disjE; simp add: plain_def)+

lemma plain_ground [simp]:
  "plain (CHR '':'')" "plain (CHR '','')" "plain (CHR ''.'')" "plain (CHR ''e'')" "plain (CHR ''E'')"
  "plain (CHR ''+'')" "plain (CHR ''-'')" "plain (CHR ''0'')" "plain (CHR ''I'')"
  "\<not> plain (CHR 0x22)" "\<not> plain (CHR 0x5C)" "\<not> plain (CHR ''{'')" "\<not> plain (CHR ''}'')"
  "\<not> plain (CHR ''['')" "\<not> plain (CHR '']'')"
  by (simp_all add: plain_def)

lemma plain_effect:
  "plain c \<Longrightarrow> \<not> in_str m' \<Longrightarrow> lit_ok m' \<Longrightarrow> outside_effect stk c (m', stk)"
  by (clarsimp simp: outside_effect_def plain_def)

lemma start_value_outside:
  "start_value stk c = Some s' \<Longrightarrow> outside_effect stk c s'"
  unfolding start_value_def outside_effect_def
  by (clarsimp simp: plain_def split: if_splits)

lemma after_value_outside:
  "after_value stk c = Some s' \<Longrightarrow> outside_effect stk c s'"
  unfolding after_value_def outside_effect_def
  by (clarsimp simp: plain_def split: if_splits list.splits container.splits)

lemma jstep_outside:
  assumes "jstep (m, stk) c = Some s'" and "\<not> in_str m" and "lit_ok m"
  shows "outside_effect stk c s'"
proof (cases m)
  case MValue
  with assms show ?thesis
    by (clarsimp simp: start_value_outside plain_effect plain_chars split: if_splits)
next
  case MFirstElem
  show ?thesis
  proof (cases "json_ws c")
    case True
    with MFirstElem assms show ?thesis
      by (clarsimp simp: plain_effect plain_chars plain_exp)
  next
    case False
    show ?thesis
    proof (cases "c = CHR '']''")
      case True
      with MFirstElem assms show ?thesis
        by (clarsimp simp: outside_effect_def split: list.splits container.splits)
    next
      case neq: False
      with False MFirstElem assms show ?thesis
        by (simp add: start_value_outside)
    qed
  qed
next
  case MFirstKey
  with assms show ?thesis
    by (clarsimp simp: plain_effect plain_chars plain_exp outside_effect_def
        split: if_splits list.splits container.splits)
next
  case MKey
  with assms show ?thesis
    by (clarsimp simp: plain_effect plain_chars plain_exp outside_effect_def split: if_splits)
next
  case MColon
  with assms show ?thesis
    by (clarsimp simp: plain_effect plain_chars plain_exp split: if_splits)
next
  case MAfter
  with assms show ?thesis by (simp add: after_value_outside)
next
  case (MLit w)
  with assms show ?thesis
    by (cases w) (clarsimp simp: plain_effect split: if_splits)+
next
  case MMinus
  have inf: "outside_effect stk (CHR ''I'') (MLit ''nfinity'', stk)"
    by (simp add: outside_effect_def plain_def)
  from MMinus assms show ?thesis
    by (clarsimp simp: plain_effect plain_chars plain_exp inf split: if_splits)
next
  case MZero
  with assms show ?thesis
    by (clarsimp simp: plain_effect plain_chars plain_exp after_value_outside split: if_splits)
next
  case MInt
  with assms show ?thesis
    by (clarsimp simp: plain_effect plain_chars plain_exp after_value_outside split: if_splits)
next
  case MDot
  with assms show ?thesis
    by (clarsimp simp: plain_effect plain_chars plain_exp split: if_splits)
next
  case MFrac
  with assms show ?thesis
    by (clarsimp simp: plain_effect plain_chars plain_exp after_value_outside split: if_splits)
next
  case MExp
  with assms show ?thesis
    by (clarsimp simp: plain_effect plain_chars plain_exp split: if_splits)
next
  case MExpSign
  with assms show ?thesis
    by (clarsimp simp: plain_effect plain_chars plain_exp split: if_splits)
next
  case MExpDigits
  with assms show ?thesis
    by (clarsimp simp: plain_effect plain_chars plain_exp after_value_outside split: if_splits)
qed (use assms in simp_all)

lemma opener_closer [simp]:
  "opener a \<noteq> closer b" "closer a \<noteq> opener b"
  "(opener a = opener b) = (a = b)" "(closer a = closer b) = (a = b)"
  "opener a \<noteq> CHR 0x22" "closer a \<noteq> CHR 0x22"
  "opener a \<noteq> CHR 0x5C" "closer a \<noteq> CHR 0x5C"
  "\<not> plain (opener a)" "\<not> plain (closer a)"
  by (cases a; cases b; simp add: opener_def closer_def)+

lemma is_esc_in_str: "is_esc m \<Longrightarrow> in_str m"
  by (cases m) simp_all

lemma count_last_pos: "xs \<noteq> [] \<Longrightarrow> last xs = k \<Longrightarrow> 0 < count_list xs k"
  by (metis count_list_0_iff last_in_set not_gr_zero)

lemma loop_body_escape:
  "escape_next st \<Longrightarrow> loop_body st i c = (st\<lparr> escape_next := False \<rparr>, False)"
  by (simp add: loop_body_def)

lemma loop_body_backslash:
  "\<not> escape_next st \<Longrightarrow> loop_body st i (CHR 0x5C) = (st\<lparr> escape_next := True \<rparr>, False)"
  by (simp add: loop_body_def)

lemma loop_body_quote:
  assumes "\<not> escape_next st" and "start_pos st \<noteq> -1"
    and "open_char st \<noteq> Some (CHR 0x22)" and "close_char st \<noteq> Some (CHR 0x22)"
  shows "loop_body st i (CHR 0x22) = (st\<lparr> in_string := \<not> in_string st \<rparr>, False)"
  using assms by (auto simp: loop_body_def Let_def)

lemma loop_body_inside:
  assumes "\<not> escape_next st" and "c \<noteq> CHR 0x5C" and "c \<noteq> CHR 0x22" and "in_string st"
  shows "loop_body st i c = (st, False)"
  using assms by (simp add: loop_body_def)

lemma loop_body_open:
  assumes "\<not> escape_next st" and "c \<noteq> CHR 0x5C" and "c \<noteq> CHR 0x22" and "\<not> in_string st"
    and "start_pos st \<noteq> -1" and "Some c = open_char st"
  shows "loop_body st i c = (st\<lparr> depth := depth st + 1 \<rparr>, False)"
  using assms by (simp add: loop_body_def)

lemma loop_body_close:
  assumes "\<not> escape_next st" and "c \<noteq> CHR 0x5C" and "c \<noteq> CHR 0x22" and "\<not> in_string st"
    and "start_pos st \<noteq> -1" and "Some c \<noteq> open_char st" and "Some c = close_char st"
  shows "loop_body st i c =
           (if depth st - 1 = 0
            then (st\<lparr> depth := depth st - 1, end_pos := int i + 1 \<rparr>, True)
            else (st\<lparr> depth := depth st - 1 \<rparr>, False))"
  using assms by (simp add: loop_body_def Let_def)

lemma loop_body_other:
  assumes "\<not> escape_next st" and "c \<noteq> CHR 0x5C" and "c \<noteq> CHR 0x22" and "\<not> in_string st"
    and "start_pos st \<noteq> -1" and "Some c \<noteq> open_char st" and "Some c \<noteq> close_char st"
  shows "loop_body st i c = (st, False)"
  using assms by (simp add: loop_body_def)

lemma sim_in_string:
  assumes tr: "tracking k i0 st (m, stk)" and step: "jstep (m, stk) c = Some (m', stk')"
    and ins: "in_str m"
  shows "stk' \<noteq> [] \<and> \<not> snd (loop_body st i c) \<and> tracking k i0 (fst (loop_body st i c)) (m', stk')"
proof -
  note eff = jstep_in_string [OF step ins]
  have stk: "stk' = stk" by (rule eff(1))
  have lit: "lit_ok m'" by (rule eff(2))
  from tr have t: "stk \<noteq> []" "last stk = k" "start_pos st = int i0"
    "open_char st = Some (opener k)" "close_char st = Some (closer k)"
    "depth st = int (count_list stk k)" "in_string st" "escape_next st = is_esc m"
    using ins by (simp_all add: tracking_def)
  show ?thesis
  proof (cases "is_esc m")
    case True
    then have lb: "loop_body st i c = (st\<lparr> escape_next := False \<rparr>, False)"
      using t by (simp add: loop_body_escape)
    from eff(3) [OF True] show ?thesis
      using t stk lit by (simp add: lb tracking_def)
  next
    case False
    show ?thesis
    proof (cases "c = CHR 0x5C")
      case True
      then have lb: "loop_body st i c = (st\<lparr> escape_next := True \<rparr>, False)"
        using t False by (simp add: loop_body_backslash)
      from eff(4) [OF False True] show ?thesis
        using t stk lit by (simp add: lb tracking_def)
    next
      case nb: False
      show ?thesis
      proof (cases "c = CHR 0x22")
        case True
        have lb: "loop_body st i (CHR 0x22) = (st\<lparr> in_string := \<not> in_string st \<rparr>, False)"
          using t False by (intro loop_body_quote) simp_all
        from eff(5) [OF False nb True] have "\<not> in_str m'" .
        moreover then have "\<not> is_esc m'" using is_esc_in_str by blast
        ultimately show ?thesis
          using t stk lit False by (simp add: True lb tracking_def)
      next
        case nq: False
        have lb: "loop_body st i c = (st, False)"
          using t False nb nq by (simp add: loop_body_inside)
        from eff(6) [OF False nb nq] show ?thesis
          using t stk lit False by (simp add: lb tracking_def)
      qed
    qed
  qed
qed

lemma sim_outside:
  assumes tr: "tracking k i0 st (m, stk)" and step: "jstep (m, stk) c = Some (m', stk')"
    and out: "\<not> in_str m"
  shows "stk' \<noteq> [] \<Longrightarrow>
           \<not> snd (loop_body st i c) \<and> tracking k i0 (fst (loop_body st i c)) (m', stk')"
    and "stk' = [] \<Longrightarrow>
           m' = MAfter \<and> snd (loop_body st i c) \<and>
           start_pos (fst (loop_body st i c)) = int i0 \<and>
           end_pos (fst (loop_body st i c)) = int i + 1"
proof -
  from tr have t: "stk \<noteq> []" "last stk = k" "start_pos st = int i0"
    "open_char st = Some (opener k)" "close_char st = Some (closer k)"
    "depth st = int (count_list stk k)" "\<not> in_string st" "\<not> escape_next st" "lit_ok m"
    using out is_esc_in_str [of m] by (auto simp: tracking_def)
  have sp: "start_pos st \<noteq> -1" using t by simp
  from jstep_outside [OF step out t(9)]
  have eff: "c \<noteq> CHR 0x5C" "lit_ok m'"
    "c = CHR 0x22 \<longrightarrow> stk' = stk \<and> in_str m' \<and> \<not> is_esc m'"
    "c \<noteq> CHR 0x22 \<longrightarrow> \<not> in_str m'"
    "c = CHR ''{'' \<longrightarrow> stk' = Obj # stk"
    "c = CHR ''['' \<longrightarrow> stk' = Arr # stk"
    "c = CHR ''}'' \<longrightarrow> stk = Obj # stk' \<and> m' = MAfter"
    "c = CHR '']'' \<longrightarrow> stk = Arr # stk' \<and> m' = MAfter"
    "plain c \<longrightarrow> stk' = stk"
    by (simp_all add: outside_effect_def)
  have both: "(stk' \<noteq> [] \<longrightarrow>
           \<not> snd (loop_body st i c) \<and> tracking k i0 (fst (loop_body st i c)) (m', stk')) \<and>
        (stk' = [] \<longrightarrow>
           m' = MAfter \<and> snd (loop_body st i c) \<and>
           start_pos (fst (loop_body st i c)) = int i0 \<and>
           end_pos (fst (loop_body st i c)) = int i + 1)"
  proof (cases "c = CHR 0x22")
    case True
    have lb: "loop_body st i (CHR 0x22) = (st\<lparr> in_string := \<not> in_string st \<rparr>, False)"
      using t sp by (intro loop_body_quote) simp_all
    from eff(3) True have "stk' = stk" "in_str m'" "\<not> is_esc m'" by simp_all
    then show ?thesis
      using t eff(2) by (simp add: True lb tracking_def)
  next
    case nq: False
    then have nin: "\<not> in_str m'" "\<not> is_esc m'"
      using eff(4) is_esc_in_str [of m'] by auto
    show ?thesis
    proof (cases "c = opener k")
      case True
      have lb: "loop_body st i c = (st\<lparr> depth := depth st + 1 \<rparr>, False)"
        using t sp eff(1) nq True by (intro loop_body_open) simp_all
      have "stk' = k # stk"
        using True eff(5,6) by (cases k) (simp_all add: opener_def)
      then show ?thesis
        using t nin eff(2) by (simp add: lb tracking_def)
    next
      case no: False
      show ?thesis
      proof (cases "c = closer k")
        case True
        have lb: "loop_body st i c =
           (if depth st - 1 = 0
            then (st\<lparr> depth := depth st - 1, end_pos := int i + 1 \<rparr>, True)
            else (st\<lparr> depth := depth st - 1 \<rparr>, False))"
          using t sp eff(1) nq True by (intro loop_body_close) simp_all
        have pop: "stk = k # stk'" and ma: "m' = MAfter"
          using True eff(7,8) by (cases k; simp add: closer_def)+
        show ?thesis
        proof (cases "stk' = []")
          case True
          then show ?thesis using pop ma t by (simp add: lb)
        next
          case False
          then have "last stk' = k" using pop t by simp
          with False have "0 < count_list stk' k" by (rule count_last_pos)
          then show ?thesis
            using False pop ma t \<open>last stk' = k\<close> by (simp add: lb tracking_def)
        qed
      next
        case nc: False
        have lb: "loop_body st i c = (st, False)"
          using t sp eff(1) nq no nc by (intro loop_body_other) simp_all
        have cases: "stk' = stk \<or> (\<exists>j. j \<noteq> k \<and> stk' = j # stk) \<or> (\<exists>j. j \<noteq> k \<and> stk = j # stk')"
        proof (cases "plain c")
          case True
          then show ?thesis using eff(9) by simp
        next
          case False
          then consider "c = CHR ''{''" | "c = CHR ''[''" | "c = CHR ''}''" | "c = CHR '']''"
            using nq eff(1) by (auto simp: plain_def)
          then show ?thesis
          proof cases
            case 1
            then show ?thesis using no eff(5) by (cases k) (auto simp: opener_def)
          next
            case 2
            then show ?thesis using no eff(6) by (cases k) (auto simp: opener_def)
          next
            case 3
            then show ?thesis using nc eff(7) by (cases k) (auto simp: closer_def)
          next
            case 4
            then show ?thesis using nc eff(8) by (cases k) (auto simp: closer_def)
          qed
        qed
        then show ?thesis
        proof (elim disjE exE conjE)
          assume "stk' = stk"
          then show ?thesis using t nin eff(2) by (simp add: lb tracking_def)
        next
          fix j assume "j \<noteq> k" "stk' = j # stk"
          then show ?thesis using t nin eff(2) by (simp add: lb tracking_def)
        next
          fix j assume j: "j \<noteq> k" "stk = j # stk'"
          then have ne: "stk' \<noteq> []" using t by auto
          then show ?thesis using j t nin eff(2) by (simp add: lb tracking_def)
        qed
      qed
    qed
  qed
  show "stk' \<noteq> [] \<Longrightarrow>
           \<not> snd (loop_body st i c) \<and> tracking k i0 (fst (loop_body st i c)) (m', stk')"
    using both by blast
  show "stk' = [] \<Longrightarrow>
           m' = MAfter \<and> snd (loop_body st i c) \<and>
           start_pos (fst (loop_body st i c)) = int i0 \<and>
           end_pos (fst (loop_body st i c)) = int i + 1"
    using both by blast
qed

lemma sim_step:
  assumes "tracking k i0 st (m, stk)" and "jstep (m, stk) c = Some (m', stk')"
  shows "stk' \<noteq> [] \<Longrightarrow>
           \<not> snd (loop_body st i c) \<and> tracking k i0 (fst (loop_body st i c)) (m', stk')"
    and "stk' = [] \<Longrightarrow>
           m' = MAfter \<and> snd (loop_body st i c) \<and>
           start_pos (fst (loop_body st i c)) = int i0 \<and>
           end_pos (fst (loop_body st i c)) = int i + 1"
proof -
  show "stk' \<noteq> [] \<Longrightarrow>
           \<not> snd (loop_body st i c) \<and> tracking k i0 (fst (loop_body st i c)) (m', stk')"
    using assms sim_in_string sim_outside(1) by (cases "in_str m") blast+
  show "stk' = [] \<Longrightarrow>
           m' = MAfter \<and> snd (loop_body st i c) \<and>
           start_pos (fst (loop_body st i c)) = int i0 \<and>
           end_pos (fst (loop_body st i c)) = int i + 1"
    using assms sim_in_string [of k i0 st m stk c m' stk' i] sim_outside(2)
    by (cases "in_str m") blast+
qed

lemma jrun_after_empty:
  "jrun (MAfter, []) cs = Some s \<Longrightarrow> list_all json_ws cs"
proof (induction cs)
  case Nil
  then show ?case by simp
next
  case (Cons c cs)
  then show ?case
    by (cases "json_ws c") (simp_all add: after_value_def)
qed

lemma scan_loop_tracks:
  assumes "tracking k i0 st js" and "jrun js cs = Some (m', [])" and "\<not> json_ws (last cs)"
  shows "start_pos (scan_loop st i (cs @ rest)) = int i0 \<and>
         end_pos (scan_loop st i (cs @ rest)) = int (i + length cs)"
  using assms
proof (induction cs arbitrary: st js i)
  case Nil
  then show ?case by (simp add: tracking_def)
next
  case (Cons c cs)
  obtain m stk where js: "js = (m, stk)" by (cases js)
  from Cons.prems(2) js obtain m1 stk1
    where step: "jstep (m, stk) c = Some (m1, stk1)" and run: "jrun (m1, stk1) cs = Some (m', [])"
    by (auto split: option.splits)
  have tr: "tracking k i0 st (m, stk)" using Cons.prems(1) js by simp
  obtain st1 stop where lb: "loop_body st i c = (st1, stop)" by (cases "loop_body st i c")
  show ?case
  proof (cases "stk1 = []")
    case True
    from sim_step(2) [OF tr step True, of i] lb
    have fin: "m1 = MAfter" "stop" "start_pos st1 = int i0" "end_pos st1 = int i + 1"
      by simp_all
    have "cs = []"
    proof (rule ccontr)
      assume ne: "cs \<noteq> []"
      from run True fin(1) have "list_all json_ws cs" using jrun_after_empty by blast
      then have "json_ws (last cs)" using ne by (simp add: list_all_iff)
      then show False using Cons.prems(3) ne by simp
    qed
    then show ?thesis using lb fin by simp
  next
    case False
    from sim_step(1) [OF tr step False, of i] lb
    have nostop: "\<not> stop" and tr1: "tracking k i0 st1 (m1, stk1)" by simp_all
    have ne: "cs \<noteq> []" using run False by auto
    then have last: "\<not> json_ws (last cs)" using Cons.prems(3) by simp
    from Cons.IH [OF tr1 run last, of "Suc i"]
    show ?thesis using lb nostop by simp
  qed
qed

lemma loop_body_end_pos:
  "loop_body st i c = (st', stop) \<Longrightarrow>
     (stop \<longrightarrow> end_pos st' = int i + 1) \<and> (\<not> stop \<longrightarrow> end_pos st' = end_pos st)"
  by (auto simp: loop_body_def Let_def split: if_splits)

lemma scan_loop_append:
  assumes "end_pos st = -1" and "end_pos (scan_loop st i xs) = -1"
  shows "scan_loop st i (xs @ ys) = scan_loop (scan_loop st i xs) (i + length xs) ys"
  using assms
proof (induction xs arbitrary: st i)
  case Nil
  then show ?case by simp
next
  case (Cons c xs)
  obtain st1 stop where lb: "loop_body st i c = (st1, stop)" by (cases "loop_body st i c")
  note ep = loop_body_end_pos [OF lb]
  show ?case
  proof (cases stop)
    case True
    then have "end_pos (scan_loop st i (c # xs)) = int i + 1" using lb ep by simp
    then show ?thesis using Cons.prems(2) by simp
  next
    case False
    then have e1: "end_pos st1 = -1" using ep Cons.prems(1) by simp
    have e2: "end_pos (scan_loop st1 (Suc i) xs) = -1" using Cons.prems(2) lb False by simp
    from Cons.IH [OF e1 e2] show ?thesis using lb False by simp
  qed
qed

lemma first_bracket:
  assumes "c = opener k"
  shows "loop_body initial_state i c =
           (initial_state\<lparr> start_pos := int i, open_char := Some (opener k),
                            close_char := Some (closer k), depth := 1 \<rparr>, False)"
    and "jstep (MValue, []) c = Some (if k = Obj then MFirstKey else MFirstElem, [k])"
  using assms
  by (cases k; simp add: loop_body_def initial_state_def opener_def closer_def start_value_def
      json_ws_def)+

lemma scan_loop_json:
  assumes ok: "well_formed_json J" and hd: "J \<noteq> []" "hd J = opener k"
    and last: "\<not> json_ws (last J)"
  shows "start_pos (scan_loop initial_state i (J @ rest)) = int i \<and>
         end_pos (scan_loop initial_state i (J @ rest)) = int (i + length J)"
proof -
  from hd obtain cs where J: "J = opener k # cs" by (cases J) auto
  let ?m = "if k = Obj then MFirstKey else MFirstElem"
  let ?st = "initial_state\<lparr> start_pos := int i, open_char := Some (opener k),
                            close_char := Some (closer k), depth := 1 \<rparr>"
  have fs: "jstep (MValue, []) (opener k) = Some (?m, [k])"
    by (rule first_bracket(2) [OF refl])
  from ok have "case jrun (?m, [k]) cs of
                  Some (m, st) \<Rightarrow> value_complete m \<and> st = [] | None \<Rightarrow> False"
    unfolding well_formed_json_def J by (simp add: fs del: jstep.simps)
  then obtain m' where run: "jrun (?m, [k]) cs = Some (m', [])"
    by (auto split: option.splits)
  have tr: "tracking k i ?st (?m, [k])"
    by (simp add: tracking_def initial_state_def)
  have ne: "cs \<noteq> []" using run by auto
  then have l: "\<not> json_ws (last cs)" using last J by simp
  from scan_loop_tracks [OF tr run l, of "Suc i" rest]
  show ?thesis
    unfolding J by (simp add: first_bracket(1) [OF refl])
qed

lemma py_slice_middle:
  "py_slice (pre @ J @ suf) (int (length pre)) (int (length pre + length J)) = J"
  by (simp add: py_slice_def)

subsection \<open>The decoder and the grammar\<close>

lemma json_scan_None:
  "json_scan I s d cs = None \<Longrightarrow> \<exists>m. jrun s cs = Some (m, []) \<and> value_complete m"
proof (induction cs arbitrary: s d)
  case Nil
  obtain m st where s: "s = (m, st)" by (cases s)
  from Nil show ?case unfolding s by (simp split: if_splits)
next
  case (Cons c cs)
  obtain m st where s: "s = (m, st)" by (cases s)
  from Cons.prems obtain m' st' where step: "jstep (m, st) c = Some (m', st')"
    and rest: "json_scan I (m', st') (next_digits m d m') cs = None"
    unfolding s by (auto simp del: jstep.simps split: option.splits if_splits)
  from Cons.IH [OF rest] step show ?case
    unfolding s by (simp del: jstep.simps)
qed

lemma json_loads_well_formed:
  "json_loads_raises I s = None \<Longrightarrow> well_formed_json s"
  unfolding json_loads_raises_def well_formed_json_def
  by (drule json_scan_None) auto

lemma json_scan_errors:
  "json_scan I s d cs = Some e \<Longrightarrow>
     e = decode_error \<or> e = int_limit_error \<or> e = recursion_error"
proof (induction cs arbitrary: s d)
  case Nil
  obtain m st where s: "s = (m, st)" by (cases s)
  from Nil show ?case unfolding s by (simp split: if_splits)
next
  case (Cons c cs)
  obtain m st where s: "s = (m, st)" by (cases s)
  show ?case
  proof (cases "jstep (m, st) c")
    case None
    with Cons.prems show ?thesis
      unfolding s by (simp del: jstep.simps split: if_splits)
  next
    case (Some s')
    obtain m' st' where s': "s' = (m', st')" by (cases s')
    from Cons.prems Some Cons.IH [of "(m', st')" "next_digits m d m'"] show ?thesis
      unfolding s s' by (simp del: jstep.simps split: if_splits)
  qed
qed

lemma error_classes [simp]:
  "is_JSONDecodeError decode_error" "\<not> is_JSONDecodeError int_limit_error"
  "\<not> is_JSONDecodeError recursion_error"
  "int_limit_error \<noteq> no_json_found" "recursion_error \<noteq> no_json_found"
  "is_Exception decode_error" "is_Exception int_limit_error" "is_Exception recursion_error"
  "is_Exception no_json_found"
  by (simp_all add: decode_error_def int_limit_error_def recursion_error_def no_json_found_def)

lemma try_candidate_cases:
  "try_candidate I s = Inr (Some g) \<longleftrightarrow> g = s \<and> json_loads_raises I s = None"
  "try_candidate I s = Inr None \<longleftrightarrow> json_loads_raises I s = Some decode_error"
  "try_candidate I s = Inl e \<longleftrightarrow>
     json_loads_raises I s = Some e \<and> (e = int_limit_error \<or> e = recursion_error)"
proof -
  have errs: "e' = decode_error \<or> e' = int_limit_error \<or> e' = recursion_error"
    if "json_loads_raises I s = Some e'" for e'
    using that unfolding json_loads_raises_def by (rule json_scan_errors)
  show "try_candidate I s = Inr (Some g) \<longleftrightarrow> g = s \<and> json_loads_raises I s = None"
    by (auto simp: try_candidate_def split: option.splits)
  show "try_candidate I s = Inr None \<longleftrightarrow> json_loads_raises I s = Some decode_error"
    using errs by (cases "json_loads_raises I s") (auto simp: try_candidate_def)
  show "try_candidate I s = Inl e \<longleftrightarrow>
     json_loads_raises I s = Some e \<and> (e = int_limit_error \<or> e = recursion_error)"
    using errs by (cases "json_loads_raises I s") (auto simp: try_candidate_def)
qed

subsection \<open>Texts on which the two stages are easy to follow\<close>

text \<open>
  Prose without backslash, double quote, \<open>{\<close> and \<open>[\<close> leaves the state machine in
  its initial state, and a text without the opening fence has no fenced block.
\<close>

lemma loop_body_plain:
  assumes "c \<noteq> CHR 0x5C" and "c \<noteq> CHR 0x22" and "c \<noteq> CHR ''{''" and "c \<noteq> CHR ''[''"
  shows "loop_body initial_state i c = (initial_state, False)"
  using assms by (simp add: loop_body_def initial_state_def)

lemma scan_loop_plain_prefix:
  assumes "\<forall>c \<in> set pre. c \<noteq> CHR 0x5C \<and> c \<noteq> CHR 0x22 \<and> c \<noteq> CHR ''{'' \<and> c \<noteq> CHR ''[''"
  shows "scan_loop initial_state i pre = initial_state"
  using assms
proof (induction pre arbitrary: i)
  case Nil
  then show ?case by simp
next
  case (Cons c cs)
  then have "loop_body initial_state i c = (initial_state, False)"
    by (intro loop_body_plain) simp_all
  with Cons show ?case by simp
qed

lemma no_fence_no_match:
  assumes "\<not> sublist ''```json'' s"
  shows "fenced_json I s = Inr None"
proof -
  have "re_search s = None" using assms
  proof (induction s)
    case Nil
    then show ?case by simp
  next
    case (Cons c cs)
    have n: "\<not> (prefix ''```json'' (c # cs) \<or> sublist ''```json'' cs)"
      using Cons.prems [unfolded sublist_Cons_right] .
    from n have np: "\<not> prefix ''```json'' (c # cs)"
      by (rule contrapos_nn) (rule disjI1)
    from n have ns: "\<not> sublist ''```json'' cs"
      by (rule contrapos_nn) (rule disjI2)
    from np have "match_here (c # cs) = None" by (simp only: match_here_def if_False)
    with Cons.IH [OF ns] show ?case by simp
  qed
  then show ?thesis by (simp add: fenced_json_def)
qed

text \<open>
  A fenced block after prose without a backquote: the group of the search is the
  content of the block without the whitespace around it, when that content has no
  backquote and neither starts nor ends with whitespace.
\<close>

lemma backquote_not_space [simp]: "\<not> re_space (CHR 0x60)"
  by (simp add: re_space_def)

lemma dropWhile_spaces:
  "list_all re_space w \<Longrightarrow> dropWhile re_space (w @ CHR 0x60 # r) = CHR 0x60 # r"
  by (induction w) simp_all

lemma takeWhile_spaces:
  "list_all re_space w \<Longrightarrow> \<not> re_space c \<Longrightarrow> takeWhile re_space (w @ c # r) = w"
  by (induction w) simp_all

lemma dropWhile_hits:
  assumes "xs \<noteq> []" and "\<not> re_space (last xs)"
  shows "\<exists>x \<in> set xs. \<exists>r. dropWhile re_space (xs @ ys) = x # r"
  using assms
proof (induction xs)
  case Nil
  then show ?case by simp
next
  case (Cons x xs)
  show ?case
  proof (cases "re_space x")
    case False
    then show ?thesis by simp
  next
    case True
    with Cons.prems have ne: "xs \<noteq> []" by auto
    with Cons.prems have "\<not> re_space (last xs)" by simp
    from Cons.IH [OF ne this] True show ?thesis by auto
  qed
qed

lemma lazy_group_closing:
  assumes "list_all re_space w"
  shows "lazy_group acc (w @ ''```'' @ suf) = Some (rev acc)"
proof -
  have d: "dropWhile re_space (w @ ''```'' @ suf) = ''```'' @ suf"
    using dropWhile_spaces [OF assms, of "''``'' @ suf"] by simp
  obtain c cs where l: "w @ ''```'' @ suf = c # cs" by (cases "w @ ''```'' @ suf") auto
  have "prefix ''```'' (dropWhile re_space (c # cs))"
    unfolding l [symmetric] d by simp
  then show ?thesis unfolding l by simp
qed

lemma lazy_group_content:
  assumes "CHR 0x60 \<notin> set J" and "J \<noteq> []" and "\<not> re_space (last J)"
    and "list_all re_space w"
  shows "lazy_group acc (J @ w @ ''```'' @ suf) = Some (rev acc @ J)"
  using assms(1-3)
proof (induction J arbitrary: acc)
  case Nil
  then show ?case by simp
next
  case (Cons c cs)
  from dropWhile_hits [OF Cons.prems(2,3), of "w @ ''```'' @ suf"]
  obtain x r where x: "x \<in> set (c # cs)"
    and d: "dropWhile re_space ((c # cs) @ w @ ''```'' @ suf) = x # r" by blast
  from x Cons.prems(1) have "x \<noteq> CHR 0x60" by auto
  then have np: "\<not> prefix ''```'' (dropWhile re_space (c # (cs @ w @ ''```'' @ suf)))"
    using d by simp
  have step: "lazy_group acc ((c # cs) @ w @ ''```'' @ suf) =
                lazy_group (c # acc) (cs @ w @ ''```'' @ suf)"
    using np by simp
  show ?case
  proof (cases "cs = []")
    case True
    then show ?thesis
      unfolding step using lazy_group_closing [OF assms(4), of "c # acc" suf] by simp
  next
    case False
    with Cons.prems have "CHR 0x60 \<notin> set cs" "\<not> re_space (last cs)" by simp_all
    from Cons.IH [OF this(1) False this(2), of "c # acc"] show ?thesis
      unfolding step by simp
  qed
qed

lemma after_fence_content:
  assumes "CHR 0x60 \<notin> set J" and "J \<noteq> []" and "\<not> re_space (hd J)" and "\<not> re_space (last J)"
    and "list_all re_space w1" and "list_all re_space w2"
  shows "after_fence (w1 @ J @ w2 @ ''```'' @ suf) = Some J"
proof -
  let ?r = "w1 @ J @ w2 @ ''```'' @ suf"
  obtain c cs where J: "J = c # cs" using assms(2) by (cases J) auto
  have c: "\<not> re_space c" using assms(3) J by simp
  have tw: "takeWhile re_space ?r = w1"
    unfolding J using takeWhile_spaces [OF assms(5) c] by simp
  have dr: "drop (length w1) ?r = J @ w2 @ ''```'' @ suf" by simp
  have g: "lazy_group [] (drop (length w1) ?r) = Some J"
    unfolding dr using lazy_group_content [OF assms(1,2,4,6), of "[]" suf] by simp
  have "rev [0 ..< Suc (length w1)] = length w1 # rev [0 ..< length w1]" by simp
  then show ?thesis
    unfolding after_fence_def tw using g by (simp add: List.map_filter_simps)
qed

lemma re_search_skip:
  assumes "CHR 0x60 \<notin> set pre"
  shows "re_search (pre @ s) = re_search s"
  using assms
proof (induction pre)
  case Nil
  then show ?case by simp
next
  case (Cons c cs)
  then have "c \<noteq> CHR 0x60" by auto
  then have "match_here (c # cs @ s) = None" by (simp add: match_here_def)
  with Cons show ?case by simp
qed

lemma re_search_here: "match_here s = Some g \<Longrightarrow> re_search s = Some g"
  by (cases s) (simp_all add: match_here_def)

lemma fenced_block_found:
  assumes "CHR 0x60 \<notin> set pre" and "CHR 0x60 \<notin> set J" and "J \<noteq> []"
    and "\<not> re_space (hd J)" and "\<not> re_space (last J)"
    and "list_all re_space w1" and "list_all re_space w2"
  shows "re_search (pre @ ''```json'' @ w1 @ J @ w2 @ ''```'' @ suf) = Some J"
    and "fenced_json I (pre @ ''```json'' @ w1 @ J @ w2 @ ''```'' @ suf) = try_candidate I J"
proof -
  let ?r = "w1 @ J @ w2 @ ''```'' @ suf"
  have m: "match_here (''```json'' @ ?r) = Some J"
    using after_fence_content [OF assms(2-7), of suf] by (simp add: match_here_def)
  have "re_search (''```json'' @ ?r) = Some J"
    using m by (rule re_search_here)
  then show "re_search (pre @ ''```json'' @ w1 @ J @ w2 @ ''```'' @ suf) = Some J"
    using re_search_skip [OF assms(1)] by simp
  then show "fenced_json I (pre @ ''```json'' @ w1 @ J @ w2 @ ''```'' @ suf) = try_candidate I J"
    by (simp add: fenced_json_def)
qed

lemma well_formed_nonempty: "well_formed_json s \<Longrightarrow> s \<noteq> []"
  by (auto simp: well_formed_json_def value_complete_def)

text \<open>
  C1 (amended). Let the text be \<open>pre @ J @ suf\<close>, where \<open>J\<close> is a JSON object or array
  that \<open>json.loads\<close> decodes, written from its opening bracket to its closing bracket.
  The method returns exactly \<open>J\<close> when the fenced-block stage returns \<open>J\<close>, and also
  when the fenced-block stage passes (there is no fenced block, or its content raises
  \<open>JSONDecodeError\<close>) and the state machine is back in its initial state after
  \<open>pre\<close>: outside double quotes \<open>pre\<close> has no \<open>{\<close> or \<open>[\<close>, its double quotes are
  closed, and it does not end in a backslash; braces inside its quoted strings do not
  matter.
\<close>

theorem extract_embedded_json:
  assumes "json_loads_raises I J = None"
    and "hd J = CHR ''{'' \<or> hd J = CHR ''[''"
    and "\<not> json_ws (last J)"
    and "fenced_json I (pre @ J @ suf) = Inr (Some J) \<or>
         fenced_json I (pre @ J @ suf) = Inr None \<and>
         scan_loop initial_state 0 pre = initial_state"
  shows "extract_json_from_response I (pre @ J @ suf) = Inr J"
  using assms(4)
proof
  assume "fenced_json I (pre @ J @ suf) = Inr (Some J)"
  then show ?thesis by (simp add: extract_json_from_response_def)
next
  assume a: "fenced_json I (pre @ J @ suf) = Inr None \<and>
             scan_loop initial_state 0 pre = initial_state"
  have wf: "well_formed_json J" using assms(1) by (rule json_loads_well_formed)
  have ne: "J \<noteq> []" using wf by (rule well_formed_nonempty)
  from assms(2) have "hd J = opener Obj \<or> hd J = opener Arr"
    by (simp add: opener_def)
  then obtain k where k: "hd J = opener k" by blast
  have e0: "end_pos initial_state = -1" by (simp add: initial_state_def)
  have e1: "end_pos (scan_loop initial_state 0 pre) = -1" using a e0 by simp
  have "scan_loop initial_state 0 (pre @ J @ suf) =
          scan_loop initial_state (length pre) (J @ suf)"
    using scan_loop_append [OF e0 e1, of "J @ suf"] a by simp
  with scan_loop_json [OF wf ne k assms(3), of "length pre" suf]
  have sp: "start_pos (scan_loop initial_state 0 (pre @ J @ suf)) = int (length pre)"
    and ep: "end_pos (scan_loop initial_state 0 (pre @ J @ suf)) = int (length pre + length J)"
    by simp_all
  have "scanned_json I (pre @ J @ suf) = Inr (Some J)"
    unfolding scanned_json_def Let_def sp ep py_slice_middle
    using assms(1) by (simp add: try_candidate_cases)
  then show ?thesis
    using a by (simp add: extract_json_from_response_def)
qed

theorem extract_embedded_json_witness:
  "json_loads_raises python_defaults say_json = None \<and> hd say_json = CHR ''{'' \<and>
   \<not> json_ws (last say_json) \<and>
   scan_loop initial_state 0 say_pre = initial_state \<and>
   fenced_json python_defaults (say_pre @ say_json @ say_suf) = Inr None \<and>
   extract_json_from_response python_defaults (say_pre @ say_json @ say_suf) = Inr say_json \<and>
   json_loads_raises python_defaults stray_json = None \<and> hd stray_json = CHR ''{'' \<and>
   \<not> json_ws (last stray_json) \<and>
   fenced_json python_defaults (fence_pre @ stray_json @ fence_suf) = Inr (Some stray_json) \<and>
   extract_json_from_response python_defaults (fence_pre @ stray_json @ fence_suf) =
     Inr stray_json"
proof -
  have h1: "json_loads_raises python_defaults say_json = None" by code_simp
  have h2: "hd say_json = CHR ''{'' \<or> hd say_json = CHR ''[''" by code_simp
  have h2': "hd say_json = CHR ''{''" by code_simp
  have h3: "\<not> json_ws (last say_json)" by code_simp
  have h4: "scan_loop initial_state 0 say_pre = initial_state" by code_simp
  have h5: "fenced_json python_defaults (say_pre @ say_json @ say_suf) = Inr None"
    by code_simp
  have h45: "fenced_json python_defaults (say_pre @ say_json @ say_suf) = Inr (Some say_json) \<or>
         fenced_json python_defaults (say_pre @ say_json @ say_suf) = Inr None \<and>
         scan_loop initial_state 0 say_pre = initial_state"
    using h5 h4 by (intro disjI2 conjI)
  have g1: "json_loads_raises python_defaults stray_json = None" by code_simp
  have g2: "hd stray_json = CHR ''{'' \<or> hd stray_json = CHR ''[''" by code_simp
  have g2': "hd stray_json = CHR ''{''" by code_simp
  have g3: "\<not> json_ws (last stray_json)" by code_simp
  have g4: "fenced_json python_defaults (fence_pre @ stray_json @ fence_suf) =
              Inr (Some stray_json)"
    by code_simp
  have g45: "fenced_json python_defaults (fence_pre @ stray_json @ fence_suf) =
               Inr (Some stray_json) \<or>
         fenced_json python_defaults (fence_pre @ stray_json @ fence_suf) = Inr None \<and>
         scan_loop initial_state 0 fence_pre = initial_state"
    using g4 by (rule disjI1)
  from extract_embedded_json [OF h1 h2 h3 h45] extract_embedded_json [OF g1 g2 g3 g45]
  show ?thesis using h1 h2' h3 h4 h5 g1 g2' g3 g4 by (intro conjI)
qed

text \<open>
  The text \<open>see {x}: {"a": 1}\<close> contains the well-formed object \<open>{"a": 1}\<close>, yet the
  state machine opens its span at the stray brace of the prose, the candidate \<open>{x}\<close> does
  not decode, and the method raises.
\<close>

theorem extract_embedded_json_counterexample:
  "json_loads_raises python_defaults stray_json = None \<and> hd stray_json = CHR ''{'' \<and>
   stray_text = ''see {x}: '' @ stray_json @ [] \<and>
   extract_json_from_response python_defaults stray_text = Inl no_json_found"
  by code_simp


subsection \<open>What the method returns\<close>

lemma sublist_trans': "sublist xs ys \<Longrightarrow> sublist ys zs \<Longrightarrow> sublist xs zs"
  by (rule sublist_order.order.trans)

lemma lazy_group_prefix:
  "lazy_group acc r = Some g \<Longrightarrow> prefix g (rev acc @ r)"
proof (induction r arbitrary: acc)
  case Nil
  then show ?case by simp
next
  case (Cons c cs)
  show ?case
  proof (cases "prefix ''```'' (dropWhile re_space (c # cs))")
    case True
    with Cons.prems have "g = rev acc" by simp
    then show ?thesis by simp
  next
    case False
    with Cons.prems have "lazy_group (c # acc) cs = Some g" by simp
    from Cons.IH [OF this] show ?thesis by simp
  qed
qed

lemma map_filter_hd:
  "List.map_filter f xs = g # gs \<Longrightarrow> \<exists>x \<in> set xs. f x = Some g"
proof -
  assume "List.map_filter f xs = g # gs"
  then have "g \<in> set (List.map_filter f xs)" by simp
  then show ?thesis by (auto simp: List.map_filter_def)
qed

lemma after_fence_sublist: "after_fence r = Some g \<Longrightarrow> sublist g r"
proof -
  assume a: "after_fence r = Some g"
  then obtain gs where
    "List.map_filter (\<lambda>k. lazy_group [] (drop k r))
       (rev [0 ..< Suc (length (takeWhile re_space r))]) = g # gs"
    unfolding after_fence_def by (auto split: list.splits)
  from map_filter_hd [OF this] obtain k where "lazy_group [] (drop k r) = Some g" by blast
  from lazy_group_prefix [OF this] have "prefix g (drop k r)" by simp
  then have "sublist g (drop k r)" by (rule prefix_imp_sublist)
  then show ?thesis using sublist_drop sublist_trans' by blast
qed

lemma match_here_sublist: "match_here s = Some g \<Longrightarrow> sublist g s"
proof -
  assume "match_here s = Some g"
  then have "after_fence (drop 7 s) = Some g"
    by (simp add: match_here_def split: if_splits)
  then have "sublist g (drop 7 s)" by (rule after_fence_sublist)
  then show ?thesis using sublist_drop sublist_trans' by blast
qed

lemma re_search_sublist: "re_search s = Some g \<Longrightarrow> sublist g s"
proof (induction s)
  case Nil
  then show ?case by simp
next
  case (Cons c cs)
  show ?case
  proof (cases "match_here (c # cs)")
    case None
    with Cons have "sublist g cs" by simp
    then show ?thesis by (simp add: sublist_Cons_right)
  next
    case (Some g')
    with Cons.prems have "g' = g" by simp
    with Some show ?thesis using match_here_sublist by blast
  qed
qed

lemma fenced_json_sound:
  "fenced_json I text = Inr (Some g) \<Longrightarrow> sublist g text \<and> json_loads_raises I g = None"
  by (auto simp: fenced_json_def try_candidate_cases re_search_sublist split: option.splits)

lemma fenced_json_error:
  assumes "fenced_json I text = Inl e"
  shows "e = int_limit_error \<or> e = recursion_error"
    and "\<exists>c. sublist c text \<and> json_loads_raises I c = Some e"
proof -
  from assms obtain g where g: "re_search text = Some g" and t: "try_candidate I g = Inl e"
    by (auto simp: fenced_json_def split: option.splits)
  from t show "e = int_limit_error \<or> e = recursion_error"
    by (simp add: try_candidate_cases)
  from t have "json_loads_raises I g = Some e" by (simp add: try_candidate_cases)
  then show "\<exists>c. sublist c text \<and> json_loads_raises I c = Some e"
    using re_search_sublist [OF g] by blast
qed

lemma loop_body_start_pos:
  assumes "loop_body st i c = (st', stop)"
  shows "start_pos st \<noteq> -1 \<Longrightarrow> start_pos st' = start_pos st"
    and "start_pos st = -1 \<Longrightarrow>
           start_pos st' = -1 \<or> start_pos st' = int i \<and> (c = CHR ''{'' \<or> c = CHR ''['')"
  using assms
  by (auto simp: loop_body_def Let_def split: if_splits)

lemma scan_loop_start_kept:
  "start_pos st \<noteq> -1 \<Longrightarrow> start_pos (scan_loop st i cs) = start_pos st"
proof (induction cs arbitrary: st i)
  case Nil
  then show ?case by simp
next
  case (Cons c cs)
  obtain st1 stop where lb: "loop_body st i c = (st1, stop)" by (cases "loop_body st i c")
  from loop_body_start_pos(1) [OF lb Cons.prems] have k: "start_pos st1 = start_pos st" .
  then have "start_pos st1 \<noteq> -1" using Cons.prems by simp
  from Cons.IH [OF this] show ?case using lb k by simp
qed

lemma scan_loop_start_char:
  assumes "start_pos st = -1" and "start_pos (scan_loop st i cs) \<noteq> -1"
  shows "\<exists>j < length cs. start_pos (scan_loop st i cs) = int (i + j) \<and>
           (cs ! j = CHR ''{'' \<or> cs ! j = CHR ''['')"
  using assms
proof (induction cs arbitrary: st i)
  case Nil
  then show ?case by simp
next
  case (Cons c cs)
  obtain st1 stop where lb: "loop_body st i c = (st1, stop)" by (cases "loop_body st i c")
  show ?case
  proof (cases "start_pos st1 = -1")
    case True
    have ns: "\<not> stop"
    proof
      assume stop
      then have "scan_loop st i (c # cs) = st1" using lb by simp
      then show False using Cons.prems(2) True by simp
    qed
    then have eq: "scan_loop st i (c # cs) = scan_loop st1 (Suc i) cs" using lb by simp
    have ne: "start_pos (scan_loop st1 (Suc i) cs) \<noteq> -1" using Cons.prems(2) eq by simp
    from Cons.IH [OF True ne]
    obtain j where "j < length cs" "start_pos (scan_loop st1 (Suc i) cs) = int (Suc i + j)"
      "cs ! j = CHR ''{'' \<or> cs ! j = CHR ''[''" by blast
    then show ?thesis unfolding eq by (intro exI [of _ "Suc j"]) simp
  next
    case False
    with loop_body_start_pos(2) [OF lb Cons.prems(1)]
    have s1: "start_pos st1 = int i" and c: "c = CHR ''{'' \<or> c = CHR ''[''" by simp_all
    have "start_pos (scan_loop st i (c # cs)) = start_pos st1"
      using lb scan_loop_start_kept [OF False] by (cases stop) simp_all
    then show ?thesis using s1 c by (intro exI [of _ 0]) simp
  qed
qed

lemma sublist_py_slice: "sublist (py_slice s lo hi) s"
  unfolding py_slice_def using sublist_take sublist_drop sublist_trans' by blast

lemma scanned_json_sound:
  assumes "scanned_json I text = Inr (Some s)"
  shows "sublist s text \<and> json_loads_raises I s = None \<and>
         (hd s = CHR ''{'' \<or> hd s = CHR ''['')"
proof -
  let ?st = "scan_loop initial_state 0 text"
  from assms have sp: "start_pos ?st \<noteq> -1"
    and s: "s = py_slice text (start_pos ?st) (end_pos ?st)"
    and ok: "json_loads_raises I s = None"
    by (auto simp: scanned_json_def Let_def try_candidate_cases split: if_splits)
  have "start_pos initial_state = -1" by (simp add: initial_state_def)
  from scan_loop_start_char [OF this sp]
  obtain j where j: "j < length text" "start_pos ?st = int j"
    "text ! j = CHR ''{'' \<or> text ! j = CHR ''[''" by auto
  have ne: "s \<noteq> []"
    using ok json_loads_well_formed well_formed_nonempty by blast
  have "s = take (nat (end_pos ?st) - j) (drop j text)"
    using s j(2) by (simp add: py_slice_def)
  with ne have "hd s = hd (drop j text)" by (metis hd_take take_eq_Nil gr0I)
  also have "\<dots> = text ! j" using j(1) by (simp add: hd_drop_conv_nth)
  finally have "hd s = CHR ''{'' \<or> hd s = CHR ''[''" using j(3) by simp
  then show ?thesis using ok s sublist_py_slice by simp
qed

lemma scanned_json_error:
  assumes "scanned_json I text = Inl e"
  shows "e = int_limit_error \<or> e = recursion_error"
    and "\<exists>c. sublist c text \<and> json_loads_raises I c = Some e"
proof -
  let ?st = "scan_loop initial_state 0 text"
  let ?c = "py_slice text (start_pos ?st) (end_pos ?st)"
  from assms have t: "try_candidate I ?c = Inl e"
    by (auto simp: scanned_json_def Let_def split: if_splits)
  then show "e = int_limit_error \<or> e = recursion_error"
    by (simp add: try_candidate_cases)
  from t have "json_loads_raises I ?c = Some e" by (simp add: try_candidate_cases)
  then show "\<exists>c. sublist c text \<and> json_loads_raises I c = Some e"
    using sublist_py_slice by blast
qed


text \<open>
  C2 (amended). Every string the method returns is a substring of the input that
  \<open>json.loads\<close> decodes, hence a well-formed JSON value, and when it does not come
  from a fenced block it starts with \<open>{\<close> or \<open>[\<close>, so that it is an object or an
  array. The method raises \<open>no_json_found\<close>, or else the \<open>ValueError\<close> of the digit
  limit or the \<open>RecursionError\<close> that \<open>json.loads\<close> raised on a candidate taken from the
  input, which \<open>except json.JSONDecodeError\<close> does not catch. It raises, and returns
  nothing, whenever the fenced-block stage passes and no substring of the input is a JSON
  object or array.
\<close>

theorem extract_result_is_decodable_substring:
  "(extract_json_from_response I text = Inr s \<longrightarrow>
      sublist s text \<and> json_loads_raises I s = None \<and> well_formed_json s \<and>
      (fenced_json I text = Inr None \<longrightarrow> hd s = CHR ''{'' \<or> hd s = CHR ''['')) \<and>
   (extract_json_from_response I text = Inl e \<longrightarrow>
      e = no_json_found \<or> e = int_limit_error \<or> e = recursion_error) \<and>
   (extract_json_from_response I text = Inl e \<and> e \<noteq> no_json_found \<longrightarrow>
      (\<exists>c. sublist c text \<and> json_loads_raises I c = Some e)) \<and>
   (fenced_json I text = Inr None \<and>
    (\<forall>s'. sublist s' text \<and> well_formed_json s' \<longrightarrow> hd s' \<noteq> CHR ''{'' \<and> hd s' \<noteq> CHR ''['')
      \<longrightarrow> (\<exists>e'. extract_json_from_response I text = Inl e'))"
proof (intro conjI impI)
  assume r: "extract_json_from_response I text = Inr s"
  then have src: "fenced_json I text = Inr (Some s) \<or>
                  fenced_json I text = Inr None \<and> scanned_json I text = Inr (Some s)"
    by (auto simp: extract_json_from_response_def split: sum.splits option.splits)
  then show "sublist s text"
    using fenced_json_sound scanned_json_sound by blast
  from src show ok: "json_loads_raises I s = None"
    using fenced_json_sound scanned_json_sound by blast
  then show "well_formed_json s" by (rule json_loads_well_formed)
  show "hd s = CHR ''{'' \<or> hd s = CHR ''[''" if "fenced_json I text = Inr None"
    using src that scanned_json_sound by auto
next
  assume "extract_json_from_response I text = Inl e"
  then have "e = no_json_found \<or> fenced_json I text = Inl e \<or> scanned_json I text = Inl e"
    by (auto simp: extract_json_from_response_def split: sum.splits option.splits)
  then show "e = no_json_found \<or> e = int_limit_error \<or> e = recursion_error"
    using fenced_json_error(1) scanned_json_error(1) by blast
next
  assume "extract_json_from_response I text = Inl e \<and> e \<noteq> no_json_found"
  then have "fenced_json I text = Inl e \<or> scanned_json I text = Inl e"
    by (auto simp: extract_json_from_response_def split: sum.splits option.splits)
  then show "\<exists>c. sublist c text \<and> json_loads_raises I c = Some e"
    using fenced_json_error(2) scanned_json_error(2) by blast
next
  assume a: "fenced_json I text = Inr None \<and>
    (\<forall>s'. sublist s' text \<and> well_formed_json s' \<longrightarrow> hd s' \<noteq> CHR ''{'' \<and> hd s' \<noteq> CHR ''['')"
  have "scanned_json I text \<noteq> Inr (Some s')" for s'
  proof
    assume "scanned_json I text = Inr (Some s')"
    from scanned_json_sound [OF this] a json_loads_well_formed show False by blast
  qed
  then show "\<exists>e'. extract_json_from_response I text = Inl e'"
    using a by (auto simp: extract_json_from_response_def split: sum.splits option.splits)
qed

theorem extract_result_is_decodable_substring_witness:
  "extract_json_from_response python_defaults (say_pre @ say_json @ say_suf) = Inr say_json \<and>
   sublist say_json (say_pre @ say_json @ say_suf) \<and>
   json_loads_raises python_defaults say_json = None \<and> well_formed_json say_json \<and>
   fenced_json python_defaults plain_text = Inr None \<and>
   (\<exists>e'. extract_json_from_response python_defaults plain_text = Inl e') \<and>
   extract_json_from_response python_defaults plain_text = Inl no_json_found"
proof -
  have r: "extract_json_from_response python_defaults (say_pre @ say_json @ say_suf) =
             Inr say_json"
    by code_simp
  note at_say = extract_result_is_decodable_substring
    [of python_defaults "say_pre @ say_json @ say_suf" say_json no_json_found]
  from at_say r have p1: "sublist say_json (say_pre @ say_json @ say_suf)"
    and p2: "json_loads_raises python_defaults say_json = None"
    and p3: "well_formed_json say_json" by blast+
  have f: "fenced_json python_defaults plain_text = Inr None" by code_simp
  have none: "\<forall>s'. sublist s' plain_text \<and> well_formed_json s' \<longrightarrow>
                hd s' \<noteq> CHR ''{'' \<and> hd s' \<noteq> CHR ''[''"
  proof (intro allI impI)
    fix s' assume a: "sublist s' plain_text \<and> well_formed_json s'"
    then have "s' \<noteq> []" using well_formed_nonempty by blast
    then have "hd s' \<in> set s'" by simp
    moreover have "set s' \<subseteq> set plain_text" using a set_mono_sublist by blast
    ultimately have "hd s' \<in> set plain_text" by blast
    then show "hd s' \<noteq> CHR ''{'' \<and> hd s' \<noteq> CHR ''[''"
      by (auto simp: plain_text_def)
  qed
  note at_plain = extract_result_is_decodable_substring
    [of python_defaults plain_text say_json no_json_found]
  from at_plain f none
  have p4: "\<exists>e'. extract_json_from_response python_defaults plain_text = Inl e'"
    by blast
  have p5: "extract_json_from_response python_defaults plain_text = Inl no_json_found"
    by code_simp
  from r p1 p2 p3 f p4 p5 show ?thesis by (intro conjI)
qed

lemma scan_loop_replicate:
  assumes "\<And>j. loop_body st j c = (st, False)"
  shows "scan_loop st i (replicate n c @ rest) = scan_loop st (i + n) rest"
  using assms by (induction n arbitrary: i) simp_all

lemma json_scan_digits:
  "json_scan I (MInt, st) d (replicate n (CHR ''1'') @ rest) = json_scan I (MInt, st) (d + n) rest"
proof (induction n arbitrary: d)
  case 0
  then show ?case by simp
next
  case (Suc n)
  have d: "is_digit (CHR ''1'')" by (simp add: is_digit_def)
  have "json_scan I (MInt, st) d (replicate (Suc n) (CHR ''1'') @ rest) =
          json_scan I (MInt, st) (Suc d) (replicate n (CHR ''1'') @ rest)"
    using d by (simp add: int_pending_def next_digits_def)
  then show ?case using Suc.IH [of "Suc d"] by simp
qed

lemma long_digits_candidate:
  "json_loads_raises python_defaults long_digits = Some int_limit_error"
proof -
  have d: "is_digit19 (CHR ''1'')" "\<not> json_ws (CHR ''1'')" "\<not> json_ws (CHR ''['')"
    "\<not> is_digit (CHR ''x'')" "\<not> json_ws (CHR ''x'')"
    by (simp_all add: is_digit19_def is_digit_def json_ws_def)
  have r: "replicate 4301 (CHR ''1'') = CHR ''1'' # replicate 4300 (CHR ''1'')"
    by (simp add: replicate_Suc [symmetric] del: replicate_Suc)
  have "json_loads_raises python_defaults long_digits =
          json_scan python_defaults (MInt, [Arr]) 1 (replicate 4300 (CHR ''1'') @ ''x]'')"
    unfolding json_loads_raises_def long_digits_def r
    using d by (simp add: start_value_def python_defaults_def next_digits_def int_pending_def)
  also have "\<dots> = json_scan python_defaults (MInt, [Arr]) 4301 ''x]''"
    unfolding json_scan_digits by simp
  also have "\<dots> = Some int_limit_error"
    using d by (simp add: after_value_def int_pending_def too_long_def python_defaults_def)
  finally show ?thesis .
qed

lemma long_digits_span:
  "scan_loop initial_state 0 long_digits =
     initial_state\<lparr> start_pos := 0, open_char := Some (CHR ''[''),
                      close_char := Some (CHR '']''), depth := 0, end_pos := 4304 \<rparr>"
proof -
  let ?st = "initial_state\<lparr> start_pos := 0, open_char := Some (CHR ''[''),
                      close_char := Some (CHR '']''), depth := 1 \<rparr>"
  have one: "loop_body ?st j (CHR ''1'') = (?st, False)" for j
    by (simp add: loop_body_def initial_state_def)
  have "scan_loop initial_state 0 long_digits =
          scan_loop ?st 1 (replicate 4301 (CHR ''1'') @ ''x]'')"
    unfolding long_digits_def by (simp add: loop_body_def initial_state_def)
  also have "\<dots> = scan_loop ?st (1 + 4301) ''x]''"
    using one by (rule scan_loop_replicate)
  also have "\<dots> = initial_state\<lparr> start_pos := 0, open_char := Some (CHR ''[''),
                      close_char := Some (CHR '']''), depth := 0, end_pos := 4304 \<rparr>"
    by (simp add: loop_body_def initial_state_def)
  finally show ?thesis .
qed

lemma long_digits_raises:
  "extract_json_from_response python_defaults long_digits = Inl int_limit_error"
proof -
  have nb: "CHR 0x60 \<notin> set long_digits" by (simp add: long_digits_def)
  have "re_search long_digits = None"
    using re_search_skip [OF nb, of "[]"] by simp
  then have f: "fenced_json python_defaults long_digits = Inr None"
    by (simp add: fenced_json_def)
  have len: "length long_digits = 4304" by (simp add: long_digits_def)
  have "py_slice long_digits 0 4304 = long_digits"
    using len by (simp add: py_slice_def)
  then have "scanned_json python_defaults long_digits = Inl int_limit_error"
    unfolding scanned_json_def Let_def long_digits_span
    using long_digits_candidate by (simp add: initial_state_def try_candidate_def)
  with f show ?thesis by (simp add: extract_json_from_response_def)
qed

text \<open>
  A fenced block whose content is the scalar \<open>42\<close> is returned as it is: the result is
  neither an object nor an array, and the input has no bracket at all. And on a bracket
  followed by 4301 digits and a letter, where nothing is a JSON object or array, the
  method raises the \<open>ValueError\<close> of the digit limit, not \<open>no_json_found\<close>.
\<close>

theorem extract_result_counterexample:
  "extract_json_from_response python_defaults scalar_fence = Inr ''42'' \<and>
   hd ''42'' \<noteq> CHR ''{'' \<and> hd ''42'' \<noteq> CHR ''['' \<and>
   extract_json_from_response python_defaults long_digits = Inl int_limit_error \<and>
   int_limit_error \<noteq> no_json_found"
proof -
  have a: "extract_json_from_response python_defaults scalar_fence = Inr ''42''"
    by code_simp
  have b: "hd ''42'' \<noteq> CHR ''{''" "hd ''42'' \<noteq> CHR ''[''" by simp_all
  from a b long_digits_raises error_classes(4) show ?thesis by (intro conjI)
qed


section \<open>Properties of the Backoff Stats Fetcher\<close>

lemma attempts_retry:
  assumes "retryable E a" and "int a < max_retries E - 1"
  shows "attempts E (Suc n) a =
           (fst (attempts E n (Suc a)), total_delay E a # snd (attempts E n (Suc a)))"
  using assms
  by (auto simp: retryable_def Let_def split: sum.splits prod.splits)

lemma attempts_give_up:
  assumes "retryable E a" and "\<not> int a < max_retries E - 1"
  shows "attempts E (Suc n) a = (Inr PNone, [])"
  using assms
  by (auto simp: retryable_def Let_def split: sum.splits prod.splits)

lemma attempts_ok:
  assumes "http_get E a = Inr r" and "status_code r = 200" and "json_body r = Inr (PDict d)"
  shows "attempts E (Suc n) a =
           (Inr (case map_of d ''data'' of Some v \<Rightarrow> v | None \<Rightarrow> PDict []), [])"
  using assms by (simp add: Let_def stats_of_def try_bind_def)

lemma attempts_other_status:
  assumes "http_get E a = Inr r" and "status_code r \<noteq> 200" and "status_code r \<noteq> 404"
  shows "attempts E (Suc n) a = (Inr PNone, [])"
  using assms by (simp add: Let_def)

lemma attempts_escape:
  assumes "http_get E a = Inl e \<or>
           http_get E a = Inr r \<and> status_code r = 200 \<and> stats_of r = Inl e"
    and "\<not> is_Exception e"
  shows "attempts E (Suc n) a = (Inl e, [])"
  using assms by (auto simp: Let_def)

lemma stats_of_Inr:
  "stats_of r = Inr v \<longleftrightarrow>
     (\<exists>d. json_body r = Inr (PDict d) \<and>
          v = (case map_of d ''data'' of Some v \<Rightarrow> v | None \<Rightarrow> PDict []))"
proof (cases "json_body r")
  case (Inl e)
  then show ?thesis by (simp add: stats_of_def try_bind_def)
next
  case (Inr j)
  then show ?thesis by (cases j) (auto simp: stats_of_def try_bind_def)
qed

text \<open>
  Every attempt is of one of four kinds: it is retried while attempts remain, it answers
  200 with a JSON object, it answers a status other than 200 and 404, or it raises an
  exception that \<open>except Exception\<close> does not catch.
\<close>

lemma attempt_kinds:
  "retryable E a \<or>
   (\<exists>r d. http_get E a = Inr r \<and> status_code r = 200 \<and> json_body r = Inr (PDict d)) \<or>
   (\<exists>r. http_get E a = Inr r \<and> status_code r \<noteq> 200 \<and> status_code r \<noteq> 404) \<or>
   (\<exists>e. \<not> is_Exception e \<and>
        (http_get E a = Inl e \<or>
         (\<exists>r. http_get E a = Inr r \<and> status_code r = 200 \<and> stats_of r = Inl e)))"
proof (cases "http_get E a")
  case (Inl e)
  then show ?thesis by (cases "is_Exception e") (auto simp: retryable_def)
next
  case (Inr r)
  show ?thesis
  proof (cases "stats_of r")
    case (Inl e)
    with Inr show ?thesis
      by (cases "is_Exception e") (auto simp: retryable_def)
  next
    case Inr': (Inr v)
    then obtain d where "json_body r = Inr (PDict d)" unfolding stats_of_Inr by blast
    with Inr Inr' show ?thesis by (auto simp: retryable_def)
  qed
qed

lemma attempts_prefix:
  assumes "\<forall>j < k. retryable E (a + j)" and "int (a + k) < max_retries E"
  shows "attempts E (k + n) a =
           (fst (attempts E n (a + k)),
            map (total_delay E) [a ..< a + k] @ snd (attempts E n (a + k)))"
  using assms
proof (induction k arbitrary: a)
  case 0
  then show ?case by simp
next
  case (Suc k)
  have r0: "retryable E a" using Suc.prems(1) by force
  have lt: "int a < max_retries E - 1" using Suc.prems(2) by simp
  have rest: "\<forall>j < k. retryable E (Suc a + j)"
  proof (intro allI impI)
    fix j assume "j < k"
    then have "retryable E (a + Suc j)" using Suc.prems(1) by blast
    then show "retryable E (Suc a + j)" by simp
  qed
  have b: "int (Suc a + k) < max_retries E" using Suc.prems(2) by simp
  have "attempts E (Suc k + n) a =
          (fst (attempts E (k + n) (Suc a)), total_delay E a # snd (attempts E (k + n) (Suc a)))"
    using attempts_retry [OF r0 lt, of "k + n"] by simp
  also have "attempts E (k + n) (Suc a) =
          (fst (attempts E n (Suc a + k)),
           map (total_delay E) [Suc a ..< Suc a + k] @ snd (attempts E n (Suc a + k)))"
    by (rule Suc.IH [OF rest b])
  finally show ?case by (simp add: upt_rec [of a])
qed

lemma attempts_exhausted:
  assumes "\<forall>j < Suc k. retryable E (a + j)" and "int (a + Suc k) = max_retries E"
  shows "attempts E (Suc k) a = (Inr PNone, map (total_delay E) [a ..< a + k])"
proof -
  have pre: "\<forall>j < k. retryable E (a + j)" using assms(1) by simp
  have lt: "int (a + k) < max_retries E" using assms(2) by simp
  have last: "retryable E (a + k)" using assms(1) by simp
  have stop: "\<not> int (a + k) < max_retries E - 1" using assms(2) by simp
  from attempts_prefix [OF pre lt, of "Suc 0"] attempts_give_up [OF last stop, of 0]
  show ?thesis by simp
qed

lemma stops_at:
  assumes "\<forall>j < k. retryable E j" and "int k < max_retries E"
    and "\<And>n. attempts E (Suc n) k = (outcome, [])"
  shows "get_generation_stats E = (outcome, map (total_delay E) [0 ..< k])"
proof -
  define n where "n = nat (max_retries E) - Suc k"
  have "k < nat (max_retries E)" using assms(2) by linarith
  then have n: "nat (max_retries E) = k + Suc n" by (simp add: n_def)
  have pre: "\<forall>j < k. retryable E (0 + j)" using assms(1) by simp
  have lt: "int (0 + k) < max_retries E" using assms(2) by simp
  have p: "attempts E (k + Suc n) 0 =
             (fst (attempts E (Suc n) k),
              map (total_delay E) [0 ..< k] @ snd (attempts E (Suc n) k))"
    using attempts_prefix [OF pre lt, of "Suc n"] by (simp del: attempts.simps)
  show ?thesis
    unfolding get_generation_stats_def n p assms(3) by simp
qed

lemma jitter_bounds:
  assumes "0 \<le> d" and "0 \<le> u" and "u \<le> 1"
  shows "0 \<le> uniform 0 (d * 0.1) u" and "uniform 0 (d * 0.1) u \<le> 0.1 * d"
proof -
  show "0 \<le> uniform 0 (d * 0.1) u" using assms by (simp add: uniform_def)
  have "d * 0.1 * u \<le> d * 0.1 * 1"
    using assms by (intro mult_left_mono) simp_all
  then show "uniform 0 (d * 0.1) u \<le> 0.1 * d" by (simp add: uniform_def)
qed

text \<open>
  C6 (amended). Let each attempt before attempt \<open>k\<close> (counted from zero) be one that is
  retried: a 404, an exception that \<open>except Exception\<close> catches, or a 200 whose body is
  not JSON or not a JSON object. If attempt \<open>k\<close> is within \<open>max_retries\<close> and answers
  200 with a JSON object, the \<open>data\<close> member of that object (an empty dict when absent),
  not the object itself, is returned at once; if it answers a status other than 200 and
  404, the result is \<open>None\<close>; if it raises an exception that is not an \<open>Exception\<close>
  (a cancellation), that exception leaves the method; and if all \<open>max_retries\<close>
  attempts were retried ones, the result is \<open>None\<close>. In each case the sleeps made are
  exactly those of the retried attempts that had another attempt left: attempt \<open>a\<close>
  sleeps \<open>delay * 2 ^ a\<close> plus a jitter \<open>uniform(0, 0.1 * delay * 2 ^ a)\<close>, which lies
  between 0 and a tenth of that delay.
\<close>

theorem backoff_stats_fetcher:
  assumes "\<forall>j < k. retryable E j"
  shows "(int k < max_retries E \<and> http_get E k = Inr r \<and> status_code r = 200 \<and>
           json_body r = Inr (PDict d) \<longrightarrow>
         get_generation_stats E =
           (Inr (case map_of d ''data'' of Some v \<Rightarrow> v | None \<Rightarrow> PDict []),
            map (total_delay E) [0 ..< k])) \<and>
    (int k < max_retries E \<and> http_get E k = Inr r \<and> status_code r \<noteq> 200 \<and>
           status_code r \<noteq> 404 \<longrightarrow>
         get_generation_stats E = (Inr PNone, map (total_delay E) [0 ..< k])) \<and>
    (int k < max_retries E \<and> \<not> is_Exception e \<and>
       (http_get E k = Inl e \<or>
        http_get E k = Inr r \<and> status_code r = 200 \<and> stats_of r = Inl e) \<longrightarrow>
         get_generation_stats E = (Inl e, map (total_delay E) [0 ..< k])) \<and>
    (int k = max_retries E \<longrightarrow>
         get_generation_stats E = (Inr PNone, map (total_delay E) [0 ..< k - 1])) \<and>
    total_delay E a =
           delay E * 2 ^ a + uniform 0 (0.1 * (delay E * 2 ^ a)) (random_draw E a) \<and>
    (0 \<le> delay E \<and> 0 \<le> random_draw E a \<and> random_draw E a \<le> 1 \<longrightarrow>
         0 \<le> uniform 0 (0.1 * (delay E * 2 ^ a)) (random_draw E a) \<and>
         uniform 0 (0.1 * (delay E * 2 ^ a)) (random_draw E a) \<le> 0.1 * (delay E * 2 ^ a))"
proof -
  have c1: "int k < max_retries E \<and> http_get E k = Inr r \<and> status_code r = 200 \<and>
           json_body r = Inr (PDict d) \<longrightarrow>
         get_generation_stats E =
           (Inr (case map_of d ''data'' of Some v \<Rightarrow> v | None \<Rightarrow> PDict []),
            map (total_delay E) [0 ..< k])"
  proof
    assume a: "int k < max_retries E \<and> http_get E k = Inr r \<and> status_code r = 200 \<and>
           json_body r = Inr (PDict d)"
    have q: "attempts E (Suc n) k =
               (Inr (case map_of d ''data'' of Some v \<Rightarrow> v | None \<Rightarrow> PDict []), [])" for n
      by (rule attempts_ok [of E k r d n])
         (rule a [THEN conjunct2, THEN conjunct1]
               a [THEN conjunct2, THEN conjunct2, THEN conjunct1]
               a [THEN conjunct2, THEN conjunct2, THEN conjunct2])+
    show "get_generation_stats E =
           (Inr (case map_of d ''data'' of Some v \<Rightarrow> v | None \<Rightarrow> PDict []),
            map (total_delay E) [0 ..< k])"
      by (rule stops_at [OF assms a [THEN conjunct1] q])
  qed
  have c2: "int k < max_retries E \<and> http_get E k = Inr r \<and> status_code r \<noteq> 200 \<and>
           status_code r \<noteq> 404 \<longrightarrow>
         get_generation_stats E = (Inr PNone, map (total_delay E) [0 ..< k])"
  proof
    assume a: "int k < max_retries E \<and> http_get E k = Inr r \<and> status_code r \<noteq> 200 \<and>
           status_code r \<noteq> 404"
    have q: "attempts E (Suc n) k = (Inr PNone, [])" for n
      by (rule attempts_other_status [of E k r n])
         (rule a [THEN conjunct2, THEN conjunct1]
               a [THEN conjunct2, THEN conjunct2, THEN conjunct1]
               a [THEN conjunct2, THEN conjunct2, THEN conjunct2])+
    show "get_generation_stats E = (Inr PNone, map (total_delay E) [0 ..< k])"
      by (rule stops_at [OF assms a [THEN conjunct1] q])
  qed
  have c3: "int k < max_retries E \<and> \<not> is_Exception e \<and>
       (http_get E k = Inl e \<or>
        http_get E k = Inr r \<and> status_code r = 200 \<and> stats_of r = Inl e) \<longrightarrow>
         get_generation_stats E = (Inl e, map (total_delay E) [0 ..< k])"
  proof
    assume a: "int k < max_retries E \<and> \<not> is_Exception e \<and>
       (http_get E k = Inl e \<or>
        http_get E k = Inr r \<and> status_code r = 200 \<and> stats_of r = Inl e)"
    have q: "attempts E (Suc n) k = (Inl e, [])" for n
      by (rule attempts_escape [of E k e r n])
         (rule a [THEN conjunct2, THEN conjunct2] a [THEN conjunct2, THEN conjunct1])+
    show "get_generation_stats E = (Inl e, map (total_delay E) [0 ..< k])"
      by (rule stops_at [OF assms a [THEN conjunct1] q])
  qed
  have c4: "int k = max_retries E \<longrightarrow>
         get_generation_stats E = (Inr PNone, map (total_delay E) [0 ..< k - 1])"
  proof
    assume a: "int k = max_retries E"
    show "get_generation_stats E = (Inr PNone, map (total_delay E) [0 ..< k - 1])"
    proof (cases k)
      case 0
      then show ?thesis using a by (simp add: get_generation_stats_def)
    next
      case (Suc k')
      have pre: "\<forall>j < Suc k'. retryable E (0 + j)" using assms Suc by simp
      have eq: "int (0 + Suc k') = max_retries E" using a Suc by simp
      have "nat (max_retries E) = Suc k'" using a Suc by auto
      with attempts_exhausted [OF pre eq] Suc show ?thesis
        by (simp add: get_generation_stats_def del: attempts.simps)
    qed
  qed
  have c5: "total_delay E a =
           delay E * 2 ^ a + uniform 0 (0.1 * (delay E * 2 ^ a)) (random_draw E a)"
    by (simp add: total_delay_def Let_def mult.commute)
  have c6: "0 \<le> delay E \<and> 0 \<le> random_draw E a \<and> random_draw E a \<le> 1 \<longrightarrow>
         0 \<le> uniform 0 (0.1 * (delay E * 2 ^ a)) (random_draw E a) \<and>
         uniform 0 (0.1 * (delay E * 2 ^ a)) (random_draw E a) \<le> 0.1 * (delay E * 2 ^ a)"
  proof
    assume a: "0 \<le> delay E \<and> 0 \<le> random_draw E a \<and> random_draw E a \<le> 1"
    then have d: "0 \<le> delay E * 2 ^ a" by simp
    from jitter_bounds [OF d, of "random_draw E a"] a
    show "0 \<le> uniform 0 (0.1 * (delay E * 2 ^ a)) (random_draw E a) \<and>
         uniform 0 (0.1 * (delay E * 2 ^ a)) (random_draw E a) \<le> 0.1 * (delay E * 2 ^ a)"
      by (simp add: mult.commute)
  qed
  from c1 c2 c3 c4 c5 c6 show ?thesis by (intro conjI)
qed

lemma eventually_ready_retryable: "j < n \<Longrightarrow> retryable (eventually_ready n) j"
  by (simp add: retryable_def eventually_ready_def)

lemma eventually_ready_delays:
  "map (total_delay (eventually_ready n)) [0 ..< 3] = [21 / 40, 21 / 20, 21 / 10]"
  by (simp add: total_delay_def uniform_def eventually_ready_def upt_rec Let_def)

theorem backoff_stats_fetcher_witness:
  "retryable (eventually_ready 3) 0 \<and> retryable (eventually_ready 3) 1 \<and>
   retryable (eventually_ready 3) 2 \<and>
   http_get (eventually_ready 3) 3 =
     Inr (Response 200 (Inr (PDict [(''data'', stats_payload)]))) \<and>
   max_retries (eventually_ready 3) = 4 \<and> max_retries (eventually_ready 4) = 4 \<and>
   get_generation_stats (eventually_ready 3) =
     (Inr stats_payload, [21 / 40, 21 / 20, 21 / 10]) \<and>
   get_generation_stats (eventually_ready 4) = (Inr PNone, [21 / 40, 21 / 20, 21 / 10])"
proof -
  let ?ok = "Response 200 (Inr (PDict [(''data'', stats_payload)]))"
  have r3: "\<forall>j < 3. retryable (eventually_ready 3) j"
    by (simp add: eventually_ready_retryable)
  have r4: "\<forall>j < 4. retryable (eventually_ready 4) j"
    by (simp add: eventually_ready_retryable)
  have m: "max_retries (eventually_ready 3) = 4" "max_retries (eventually_ready 4) = 4"
    by (simp_all add: eventually_ready_def)
  have g: "http_get (eventually_ready 3) 3 = Inr ?ok"
    by (simp add: eventually_ready_def)
  from backoff_stats_fetcher
    [OF r3, of ?ok "[(''data'', stats_payload)]" decode_error 0, THEN conjunct1]
  have a: "get_generation_stats (eventually_ready 3) =
             (Inr stats_payload, map (total_delay (eventually_ready 3)) [0 ..< 3])"
    using m g by simp
  from backoff_stats_fetcher
    [OF r4, of ?ok "[(''data'', stats_payload)]" decode_error 0,
     THEN conjunct2, THEN conjunct2, THEN conjunct2, THEN conjunct1]
  have "get_generation_stats (eventually_ready 4) =
             (Inr PNone, map (total_delay (eventually_ready 4)) [0 ..< 4 - 1])"
    using m by simp
  then have b: "get_generation_stats (eventually_ready 4) =
             (Inr PNone, map (total_delay (eventually_ready 4)) [0 ..< 3])"
    by simp
  have r: "retryable (eventually_ready 3) 0" "retryable (eventually_ready 3) 1"
    "retryable (eventually_ready 3) 2"
    by (simp_all add: eventually_ready_retryable)
  from r g m a b show ?thesis
    unfolding eventually_ready_delays by (intro conjI)
qed

lemma sample_delays:
  "map (total_delay array_body) [0 ..< 3] = [21 / 40, 21 / 20, 21 / 10]"
  "map (total_delay cancelled_request) [0 ..< 1] = [21 / 40]"
  by (simp_all add: total_delay_def uniform_def array_body_def cancelled_request_def
      upt_rec Let_def)

lemma array_body_run:
  "get_generation_stats array_body = (Inr PNone, [21 / 40, 21 / 20, 21 / 10])"
proof -
  have r: "\<forall>j < 4. retryable array_body j"
    by (simp add: retryable_def array_body_def stats_of_def try_bind_def)
  have m: "int 4 = max_retries array_body" by (simp add: array_body_def)
  have "get_generation_stats array_body =
          (Inr PNone, map (total_delay array_body) [0 ..< 4 - 1])"
    unfolding get_generation_stats_def m [symmetric]
    using attempts_exhausted [of 3 array_body 0] r m by (simp del: attempts.simps)
  then show ?thesis using sample_delays(1) by simp
qed

lemma cancelled_request_run:
  "get_generation_stats cancelled_request = (Inl (BaseExn ''CancelledError'' []), [21 / 40])"
proof -
  have r: "\<forall>j < 1. retryable cancelled_request j"
    by (simp add: retryable_def cancelled_request_def)
  have m: "int 1 < max_retries cancelled_request" by (simp add: cancelled_request_def)
  have q: "attempts cancelled_request (Suc n) 1 = (Inl (BaseExn ''CancelledError'' []), [])"
    for n
    by (rule attempts_escape [of _ _ _ "Response 404 (Inl decode_error)"])
       (simp_all add: cancelled_request_def)
  from stops_at [OF r m q] show ?thesis using sample_delays(2) by simp
qed

text \<open>
  An endpoint that answers 200 with a JSON array to every request: no attempt returns,
  each is followed by a sleep while attempts remain, and the result is \<open>None\<close>. An
  endpoint that answers 200 with an object at once: the value returned is the \<open>data\<close>
  member, not the parsed payload. A request cancelled in the second attempt: the
  cancellation leaves the method instead of a value.
\<close>

theorem backoff_stats_fetcher_counterexample:
  "http_get array_body 0 = Inr (Response 200 (Inr (PList []))) \<and>
   get_generation_stats array_body = (Inr PNone, [21 / 40, 21 / 20, 21 / 10]) \<and>
   http_get (eventually_ready 0) 0 =
     Inr (Response 200 (Inr (PDict [(''data'', stats_payload)]))) \<and>
   get_generation_stats (eventually_ready 0) = (Inr stats_payload, []) \<and>
   stats_payload \<noteq> PDict [(''data'', stats_payload)] \<and>
   get_generation_stats cancelled_request = (Inl (BaseExn ''CancelledError'' []), [21 / 40])"
proof -
  have a: "http_get array_body 0 = Inr (Response 200 (Inr (PList [])))"
    by (simp add: array_body_def)
  have b: "http_get (eventually_ready 0) 0 =
     Inr (Response 200 (Inr (PDict [(''data'', stats_payload)])))"
    by (simp add: eventually_ready_def)
  have q: "attempts (eventually_ready 0) (Suc n) 0 = (Inr stats_payload, [])" for n
    using attempts_ok [of "eventually_ready 0" 0
        "Response 200 (Inr (PDict [(''data'', stats_payload)]))" "[(''data'', stats_payload)]" n]
    by (simp add: eventually_ready_def)
  have "get_generation_stats (eventually_ready 0) =
          (Inr stats_payload, map (total_delay (eventually_ready 0)) [0 ..< 0])"
    by (rule stops_at [OF _ _ q]) (simp_all add: eventually_ready_def)
  then have c: "get_generation_stats (eventually_ready 0) = (Inr stats_payload, [])"
    by simp
  have d: "stats_payload \<noteq> PDict [(''data'', stats_payload)]"
    by (simp add: stats_payload_def)
  from a array_body_run b c d cancelled_request_run show ?thesis by (intro conjI)
qed


section \<open>Properties of the Extraction Orchestrator\<close>

text \<open>
  C5. In two-step mode, when the image is prepared, the validation call returns a
  response whose \<open>success\<close> entry is true, the response parser finds a span in its
  content and the span decodes to a JSON object whose \<open>is_receipt\<close> is \<open>false\<close>, then
  \<open>extract\<close> returns a success with \<open>is_receipt = False\<close>, the decoded object as data and
  the usage and metrics of the validation response alone, and the validation call is the
  only API call of the run.
\<close>

theorem two_step_rejects_without_extraction_call:
  assumes img: "process_image_in_memory C image_path optimize_image = Inr (image_bytes, mime_type)"
    and prompt: "build_validation_only_prompt C = Inr validation_prompt"
    and call: "analyze_receipt C 0 image_bytes mime_type validation_prompt
                 (validation_max_tokens C) = Inr (PDict response)"
    and ok: "map_of response ''success'' = Some ok" "py_truthy ok"
    and content: "map_of response ''content'' = Some content"
    and span: "extract_json C content = Inr validation_json"
    and decoded: "json_loads (library C) validation_json = Inr (PDict validation_data)"
    and flag: "map_of validation_data ''is_receipt'' = Some (PBool False)"
  shows "extract C image_path optimize_image True =
     (Inr \<lparr> res_success = True,
            res_data = RawData (PDict validation_data),
            res_is_receipt = Some False,
            res_usage = Some (case map_of response ''usage'' of Some u \<Rightarrow> u | None \<Rightarrow> PDict []),
            res_metrics = Some (case map_of response ''metrics'' of Some m \<Rightarrow> m | None \<Rightarrow> PDict []),
            res_error = None,
            res_raw_response = None \<rparr>,
      [(validation_prompt, validation_max_tokens C)])"
proof -
  have v: "validation_try C (PDict response) =
     Inr (Some \<lparr> res_success = True,
            res_data = RawData (PDict validation_data),
            res_is_receipt = Some False,
            res_usage = Some (case map_of response ''usage'' of Some u \<Rightarrow> u | None \<Rightarrow> PDict []),
            res_metrics = Some (case map_of response ''metrics'' of Some m \<Rightarrow> m | None \<Rightarrow> PDict []),
            res_error = None,
            res_raw_response = None \<rparr>)"
    using content span decoded flag
    by (simp add: validation_try_def try_bind_def)
  show ?thesis
    using img prompt call ok v
    by (simp add: extract_def extract_two_step_def Let_def)
qed

lemma scripted_fields:
  "process_image_in_memory (scripted s) p opt = Inr (''image bytes'', ''image/jpeg'')"
  "build_validation_only_prompt (scripted s) = Inr ''validate''"
  "build_extraction_prompt (scripted s) v = Inr (if v then ''validate and extract'' else ''extract'')"
  "analyze_receipt (scripted s) n b m q t =
     (if n < length s then Inr (s ! n) else Inl (Exn ''RuntimeError'' ''no response left''))"
  "extract_json (scripted s) = response_parser"
  "library (scripted s) = sample_library"
  "one_shot_max_tokens (scripted s) = 2000"
  "validation_max_tokens (scripted s) = 100"
  "extraction_max_tokens (scripted s) = 2000"
  by (simp_all add: scripted_def)

lemma sample_spans:
  "response_parser (PStr blank_text) = Inr blank_text"
  "response_parser (PStr yes_text) = Inr yes_text"
  "response_parser (PStr two_items_text) = Inr two_items_text"
  by code_simp+

lemma sample_loads:
  "json_loads sample_library blank_text = Inr blank_data"
  "json_loads sample_library yes_text = Inr yes_data"
  "json_loads sample_library two_items_text = Inr two_items_data"
  by code_simp+

theorem two_step_rejects_without_extraction_call_witness:
  "extract (scripted [api_success blank_text (usage_of 900 12)]) ''receipt.jpg'' True True =
     (Inr \<lparr> res_success = True,
            res_data = RawData blank_data,
            res_is_receipt = Some False,
            res_usage = Some (usage_of 900 12),
            res_metrics = Some sample_metrics,
            res_error = None,
            res_raw_response = None \<rparr>,
      [(''validate'', 100)])"
proof -
  let ?C = "scripted [api_success blank_text (usage_of 900 12)]"
  let ?response = "[(''success'', PBool True),
            (''content'', PStr blank_text),
            (''model'', PStr ''meta-llama/llama-4-scout''),
            (''usage'', usage_of 900 12),
            (''metrics'', sample_metrics)]"
  have img: "process_image_in_memory ?C ''receipt.jpg'' True = Inr (''image bytes'', ''image/jpeg'')"
    by (simp add: scripted_fields)
  have prompt: "build_validation_only_prompt ?C = Inr ''validate''"
    by (simp add: scripted_fields)
  have call: "analyze_receipt ?C 0 ''image bytes'' ''image/jpeg'' ''validate''
                (validation_max_tokens ?C) = Inr (PDict ?response)"
    by (simp add: scripted_fields api_success_def)
  have ok: "map_of ?response ''success'' = Some (PBool True)" "py_truthy (PBool True)"
    by simp_all
  have content: "map_of ?response ''content'' = Some (PStr blank_text)"
    by simp
  have span: "extract_json ?C (PStr blank_text) = Inr blank_text"
    by (simp add: scripted_fields sample_spans)
  have decoded: "json_loads (library ?C) blank_text =
                   Inr (PDict [(''is_receipt'', PBool False), (''reason'', PStr ''blank page'')])"
    by (simp add: scripted_fields sample_loads blank_data_def)
  have flag: "map_of [(''is_receipt'', PBool False), (''reason'', PStr ''blank page'')]
                ''is_receipt'' = Some (PBool False)"
    by simp
  from two_step_rejects_without_extraction_call
    [OF img prompt call ok content span decoded flag]
  show ?thesis by (simp add: scripted_fields blank_data_def)
qed

lemma handlers_fail [simp]:
  "\<not> res_success (handle_image_processing_error e)"
  "\<not> res_success (handle_api_error e)"
  "\<not> res_success (handle_parsing_error e raw)"
  "\<not> res_success (handle_validation_error e)"
  "\<not> res_success (handle_api_validation_error e)"
  "\<not> res_success (handle_api_extraction_error e)"
  by (simp_all add: failure_def handle_image_processing_error_def handle_api_error_def
      handle_parsing_error_def handle_validation_error_def handle_api_validation_error_def
      handle_api_extraction_error_def Let_def)

lemma try_bind_Inr:
  "try_bind m f = Inr y \<longleftrightarrow> (\<exists>x. m = Inr x \<and> f x = Inr y)"
  by (cases m) (simp_all add: try_bind_def)

lemma extraction_try_Inr:
  assumes "extraction_try C vr er = Inr r"
  shows "res_success r" and "res_is_receipt r = Some True"
    and "\<exists>content json_content receipt_data.
           py_getitem er ''content'' = Inr content \<and>
           extract_json C content = Inr json_content \<and>
           parse_receipt_json (library C) json_content = Inr receipt_data \<and>
           res_data r = Dumped receipt_data"
    and "\<exists>vu eu vt et total vm em.
           py_get vr ''usage'' (PDict []) = Inr vu \<and>
           py_get er ''usage'' (PDict []) = Inr eu \<and>
           py_get vu ''total_tokens'' (PInt 0) = Inr vt \<and>
           py_get eu ''total_tokens'' (PInt 0) = Inr et \<and>
           py_add vt et = Inr total \<and>
           py_get vr ''metrics'' (PDict []) = Inr vm \<and>
           py_get er ''metrics'' (PDict []) = Inr em \<and>
           res_usage r = Some (PDict [(''validation'', vu), (''extraction'', eu),
                                      (''total_tokens'', total)]) \<and>
           res_metrics r = Some (PDict [(''validation'', vm), (''extraction'', em)])"
  using assms unfolding extraction_try_def try_bind_Inr Let_def
  by auto


lemma extraction_stage_success:
  assumes "extraction_stage C image_data vr first_call = (Inr r, calls)" and "res_success r"
  shows "\<exists>er. extraction_try C vr er = Inr r"
  using assms unfolding extraction_stage_def Let_def
  by (auto split: prod.splits sum.splits if_splits)

lemma extract_two_step_success:
  assumes "extract_two_step C image_data = (Inr r, calls)" and "res_success r"
    and "length calls = 2"
  shows "\<exists>vr er. extraction_try C vr er = Inr r"
proof -
  obtain image_bytes mime_type where i: "image_data = (image_bytes, mime_type)"
    by (cases image_data)
  from assms have "\<exists>vr first_call.
      extraction_stage C image_data vr first_call = (Inr r, calls)"
    unfolding extract_two_step_def Let_def i
    by (auto split: sum.splits if_splits option.splits)
  then obtain vr first_call
    where "extraction_stage C image_data vr first_call = (Inr r, calls)" by blast
  from extraction_stage_success [OF this assms(2)] show ?thesis by blast
qed



lemma sample_parse:
  "parse_receipt_json sample_library blank_text = Inr (Invalid sample_invalid)"
  "parse_receipt_json sample_library two_items_text = Inr (Receipt two_items_out)"
  by code_simp+




text \<open>
  What a success of the two-step mode carries after the extraction call: the usage
  entries of both responses, the sum of their \<open>total_tokens\<close> (0 for a usage dict
  without the key), and the metrics of both responses side by side.
\<close>

lemma two_step_success_combines_usage:
  assumes "extract C image_path optimize_image True = (Inr r, calls)" and "res_success r"
    and "length calls = 2"
  shows "\<exists>vr er vu eu vt et total vm em.
           py_get vr ''usage'' (PDict []) = Inr vu \<and>
           py_get er ''usage'' (PDict []) = Inr eu \<and>
           py_get vu ''total_tokens'' (PInt 0) = Inr vt \<and>
           py_get eu ''total_tokens'' (PInt 0) = Inr et \<and>
           py_add vt et = Inr total \<and>
           py_get vr ''metrics'' (PDict []) = Inr vm \<and>
           py_get er ''metrics'' (PDict []) = Inr em \<and>
           res_usage r = Some (PDict [(''validation'', vu), (''extraction'', eu),
                                      (''total_tokens'', total)]) \<and>
           res_metrics r = Some (PDict [(''validation'', vm), (''extraction'', em)])"
proof -
  from assms(1,2) obtain image_data where "extract_two_step C image_data = (Inr r, calls)"
    by (auto simp: extract_def split: sum.splits if_splits)
  with assms obtain vr er where t: "extraction_try C vr er = Inr r"
    using extract_two_step_success by blast
  from extraction_try_Inr(4) [OF t] show ?thesis by blast
qed

text \<open>
  C8. Both API calls succeed and the extraction response is a receipt that the Schema
  Validator accepts, but the client reported no usage (\<open>usage\<close> is \<open>None\<close>): the two-step
  run ends in a parsing failure instead of a success with combined usage, while the
  one-shot run on the same extraction response succeeds and passes the \<open>None\<close> on.
\<close>

theorem two_step_fails_without_usage:
  "parse_receipt_json sample_library two_items_text = Inr (Receipt two_items_out) \<and>
   extract (scripted [api_success yes_text PNone, api_success two_items_text PNone])
       ''receipt.jpg'' True True =
     (Inr \<lparr> res_success = False, res_data = NoData, res_is_receipt = None,
            res_usage = None, res_metrics = None,
            res_error = Some (''Erreur de parsing : '',
                              Exn ''AttributeError'' ''object has no attribute get''),
            res_raw_response = Some (PStr two_items_text) \<rparr>,
      [(''validate'', 100), (''extract'', 2000)]) \<and>
   extract (scripted [api_success two_items_text PNone]) ''receipt.jpg'' True False =
     (Inr \<lparr> res_success = True, res_data = Dumped (Receipt two_items_out),
            res_is_receipt = Some True,
            res_usage = Some PNone, res_metrics = Some sample_metrics,
            res_error = None,
            res_raw_response = Some (PStr two_items_text) \<rparr>,
      [(''validate and extract'', 2000)])"
proof -
  have nonempty: "two_items_text \<noteq> []" by (simp add: two_items_text_def)
  have a: "extract (scripted [api_success yes_text PNone, api_success two_items_text PNone])
       ''receipt.jpg'' True True =
     (Inr \<lparr> res_success = False, res_data = NoData, res_is_receipt = None,
            res_usage = None, res_metrics = None,
            res_error = Some (''Erreur de parsing : '',
                              Exn ''AttributeError'' ''object has no attribute get''),
            res_raw_response = Some (PStr two_items_text) \<rparr>,
      [(''validate'', 100), (''extract'', 2000)])"
    by (simp add: extract_def extract_two_step_def extraction_stage_def validation_try_def
      extraction_try_def scripted_fields api_success_def try_bind_def Let_def
      sample_spans sample_loads sample_parse yes_data_def handle_parsing_error_def failure_def
      nonempty)
  have b: "extract (scripted [api_success two_items_text PNone]) ''receipt.jpg'' True False =
     (Inr \<lparr> res_success = True, res_data = Dumped (Receipt two_items_out),
            res_is_receipt = Some True,
            res_usage = Some PNone, res_metrics = Some sample_metrics,
            res_error = None,
            res_raw_response = Some (PStr two_items_text) \<rparr>,
      [(''validate and extract'', 2000)])"
    by (simp add: extract_def extract_one_shot_def one_shot_try_def
      scripted_fields api_success_def try_bind_def Let_def
      sample_spans sample_loads sample_parse)
  from sample_parse(2) a b show ?thesis by (intro conjI)
qed

lemma handlers_stage_failure [simp]:
  "stage_failure (handle_image_processing_error e)"
  "stage_failure (handle_api_error e)"
  "stage_failure (handle_parsing_error e raw)"
  "stage_failure (handle_validation_error e)"
  "stage_failure (handle_api_validation_error e)"
  "stage_failure (handle_api_extraction_error e)"
  by (simp_all add: stage_failure_def stage_labels_def failure_def
      handle_image_processing_error_def handle_api_error_def
      handle_parsing_error_def handle_validation_error_def handle_api_validation_error_def
      handle_api_extraction_error_def Let_def)














end
